theory Spec2Isabelle
  imports Main "HOL-Library.Word"
begin

unbundle bit_operations_syntax

section \<open>Transport codec (meter.py)\<close>

text \<open>
  Frames are Python \<open>bytes\<close>/\<open>bytearray\<close> objects: lists of 8-bit values. The checksum
  is a Python integer, kept as \<open>int\<close>; that it never leaves 16 bits is proved below
  (\<open>calculate_crc_range\<close>), not assumed.
\<close>

type_synonym byte = "8 word"

text \<open>One round of the inner \<open>for _ in range(8)\<close> loop of \<open>calculate_crc\<close>.\<close>

definition crc_shift :: "int \<Rightarrow> int" where
  "crc_shift crc =
     (if crc AND 0x0001 \<noteq> 0 then drop_bit 1 crc XOR 0xA001 else drop_bit 1 crc)"

text \<open>The body of the outer loop: \<open>crc ^= byte\<close>, then eight rounds.\<close>

definition crc_update :: "int \<Rightarrow> byte \<Rightarrow> int" where
  "crc_update crc b = (crc_shift ^^ 8) (crc XOR uint b)"

definition calculate_crc :: "byte list \<Rightarrow> int" where
  "calculate_crc data = foldl crc_update 0xFFFF data"

text \<open>
  \<open>verify_crc(frame)\<close>: \<open>not frame\<close> holds for \<open>None\<close> and for the empty frame;
  \<open>frame[-2]\<close>, \<open>frame[-1]\<close> and \<open>frame[:-2]\<close> are read only when the length is at
  least 3, so they are in range.
\<close>

definition verify_crc :: "byte list option \<Rightarrow> bool" where
  "verify_crc frame =
     (case frame of
        None \<Rightarrow> False
      | Some f \<Rightarrow>
          if f = [] \<or> length f < 3 then False
          else (let received_crc =
                      uint (f ! (length f - 2)) OR push_bit 8 (uint (f ! (length f - 1)))
                in calculate_crc (take (length f - 2) f) = received_crc))"

text \<open>
  Storing an integer into a \<open>bytearray\<close> element. The firmware runs on MicroPython
  (it imports \<open>machine\<close> and \<open>utime\<close>), whose element store keeps the low eight bits of
  the value. Every store of the source other than the unit address and the function
  code is masked with \<open>& 0xFF\<close> first.
\<close>

definition to_byte :: "int \<Rightarrow> byte" where
  "to_byte v = word_of_int v"

text \<open>
  \<open>crc = calculate_crc(frame); frame += bytearray([crc & 0xFF, (crc >> 8) & 0xFF])\<close>,
  the two lines that end both \<open>build_modbus_request\<close> and \<open>write_single_register\<close>.
\<close>

definition append_crc :: "byte list \<Rightarrow> byte list" where
  "append_crc frame =
     (let crc = calculate_crc frame
      in frame @ [to_byte (crc AND 0xFF), to_byte (drop_bit 8 crc AND 0xFF)])"

definition build_modbus_request :: "int \<Rightarrow> int \<Rightarrow> int \<Rightarrow> int \<Rightarrow> byte list" where
  "build_modbus_request address function_code register_address register_count =
     append_crc
       [to_byte address,
        to_byte function_code,
        to_byte (drop_bit 8 register_address AND 0xFF),
        to_byte (register_address AND 0xFF),
        to_byte (drop_bit 8 register_count AND 0xFF),
        to_byte (register_count AND 0xFF)]"

text \<open>The frame that \<open>write_single_register\<close> transmits.\<close>

definition write_request :: "int \<Rightarrow> int \<Rightarrow> int \<Rightarrow> byte list" where
  "write_request address register_address val =
     append_crc
       [to_byte address,
        0x10,
        to_byte (drop_bit 8 register_address AND 0xFF),
        to_byte (register_address AND 0xFF),
        0x00,
        0x01,
        0x02,
        to_byte (drop_bit 8 val AND 0xFF),
        to_byte (val AND 0xFF)]"

section \<open>The device: serial line, target files, reports\<close>

text \<open>
  A value read back from a target file: what the program itself writes is a number;
  a file edited by hand may hold another JSON value, and \<open>JOther\<close> stands for a
  non-empty text (it is true as a condition, and comparing it with a number raises
  \<open>TypeError\<close>). Volumes and requested amounts are
  Python integers here; a request given as a float is outside this development.
\<close>

datatype jvalue = JNum int | JOther

datatype py_error = TypeError

text \<open>Reports handed to \<open>mqttPublish\<close>, one constructor for each status string.\<close>

datatype report =
    Resuming_batch int
  | Dispense_started string int
  | Dispense_complete string int int
  | Dispense_failed string string int
  | Valve_force_open string
  | Valve_force_closed string
  | Device_report int int string

text \<open>
  The effects a run leaves behind, in order: a frame written to the UART, a target
  file written, a report published.
\<close>

datatype event =
    Tx "byte list"
  | Persist int int
  | Publish report

text \<open>
  The dictionary that \<open>datacb\<close> appends to \<open>globals.CMD_QUEUE\<close>, with its keys
  \<open>type\<close>, \<open>addr\<close>, \<open>litres\<close> and \<open>device_id\<close>.
\<close>

record command =
  cmd_type :: "string option"
  cmd_addr :: int
  cmd_litres :: "int option"
  cmd_device_id :: string

text \<open>
  The state the program acts on. \<open>uart_rx w k\<close> is what the \<open>k\<close>-th call of
  \<open>uart.read\<close> inside \<open>smart_read_modbus\<close> delivers (\<open>None\<close>: nothing arrived, or the
  read raised); \<open>uart_pos\<close> counts the calls made so far. The meter is thereby an
  arbitrary environment. \<open>targets\<close> is the content of the files under
  \<open>/flash/mem\<close>, taken to be written reliably. \<open>mqtt_present\<close> is
  \<open>meter_mqtts.mqtt is not None\<close>.
\<close>

record world =
  uart_rx :: "nat \<Rightarrow> byte list option"
  uart_pos :: nat
  events :: "event list"
  targets :: "int \<Rightarrow> jvalue option"
  mqtt_present :: bool
  CMD_QUEUE :: "command list"
  last_alive_tick :: int

definition uart_write :: "world \<Rightarrow> byte list \<Rightarrow> world" where
  "uart_write w frame = w\<lparr>events := events w @ [Tx frame]\<rparr>"

text \<open>\<open>uart.read(expected_bytes)\<close> hands over at most \<open>expected_bytes\<close> bytes.\<close>

definition smart_read_modbus :: "world \<Rightarrow> nat \<Rightarrow> byte list option \<times> world" where
  "smart_read_modbus w expected_bytes =
     (map_option (take expected_bytes) (uart_rx w (uart_pos w)),
      w\<lparr>uart_pos := Suc (uart_pos w)\<rparr>)"

section \<open>Meter driver (meter.py)\<close>

text \<open>
  \<open>write_single_register\<close> returns \<open>response and verify_crc(response)\<close>; its truth
  value is what is kept here.
\<close>

definition write_single_register :: "world \<Rightarrow> int \<Rightarrow> int \<Rightarrow> int \<Rightarrow> bool \<times> world" where
  "write_single_register w address register_address val =
     (let w1 = uart_write w (write_request address register_address val);
          (response, w2) = smart_read_modbus w1 8
      in (case response of
            None \<Rightarrow> (False, w2)
          | Some r \<Rightarrow> (r \<noteq> [] \<and> verify_crc (Some r), w2)))"

definition read_cumulative_flow :: "world \<Rightarrow> int \<Rightarrow> int option \<times> world" where
  "read_cumulative_flow w address =
     (let request = build_modbus_request address 0x03 0x000E 0x02;
          w1 = uart_write w request;
          (response, w2) = smart_read_modbus w1 9
      in (case response of
            None \<Rightarrow> (None, w2)
          | Some r \<Rightarrow>
              if r \<noteq> [] \<and> length r = 9 \<and> verify_crc (Some r)
              then (if uint (r ! 0) = address
                    then (Some (push_bit 8 (uint (r ! 3)) OR uint (r ! 4)), w2)
                    else (None, w2))
              else (None, w2)))"

definition open_valve :: "world \<Rightarrow> int \<Rightarrow> world" where
  "open_valve w device_address = snd (write_single_register w device_address 0x0060 0x0001)"

definition close_valve :: "world \<Rightarrow> int \<Rightarrow> world" where
  "close_valve w device_address = snd (write_single_register w device_address 0x0060 0x0002)"

text \<open>\<open>for attempt in range(retries)\<close>, with the early return on the first value.\<close>

fun get_valid_volume :: "world \<Rightarrow> int \<Rightarrow> nat \<Rightarrow> int option \<times> world" where
  "get_valid_volume w address 0 = (None, w)"
| "get_valid_volume w address (Suc retries) =
     (case read_cumulative_flow w address of
        (Some volume_value, w1) \<Rightarrow> (Some volume_value, w1)
      | (None, w1) \<Rightarrow> get_valid_volume w1 address retries)"

section \<open>Persistent target store (meter_storage.py)\<close>

definition save_target_reading :: "world \<Rightarrow> int \<Rightarrow> int \<Rightarrow> world" where
  "save_target_reading w address val =
     w\<lparr>targets := (targets w)(address \<mapsto> JNum val),
       events := events w @ [Persist address val]\<rparr>"

definition load_target_reading :: "world \<Rightarrow> int \<Rightarrow> jvalue option" where
  "load_target_reading w address = targets w address"

section \<open>Dispense controller (meter.py)\<close>

text \<open>The dictionary \<open>dispense_batch\<close> returns: status, reason, dispensed, final reading.\<close>

datatype outcome =
    Completed int int
  | Failed string int

definition max_errors :: nat where
  "max_errors = 5"

text \<open>
  The \<open>while True\<close> loop of \<open>dispense_batch\<close>, with its variables \<open>last_vol\<close> and
  \<open>consecutive_errors\<close>. It need not return: \<open>None\<close> is a loop that runs forever.
\<close>

partial_function (option) monitoring ::
  "world \<Rightarrow> int \<Rightarrow> int \<Rightarrow> int \<Rightarrow> int \<Rightarrow> nat \<Rightarrow> (outcome \<times> world) option" where
  "monitoring w address start_vol target_vol last_vol consecutive_errors =
     (case read_cumulative_flow w address of
        (None, w1) \<Rightarrow>
          if Suc consecutive_errors \<ge> max_errors
          then Some (Failed ''meter_timeout'' (last_vol - start_vol), close_valve w1 address)
          else monitoring w1 address start_vol target_vol last_vol (Suc consecutive_errors)
      | (Some current_vol, w1) \<Rightarrow>
          if current_vol \<ge> target_vol
          then Some (Completed (current_vol - start_vol) current_vol,
                     save_target_reading (close_valve w1 address) address current_vol)
          else monitoring w1 address start_vol target_vol current_vol 0)"

definition dispense_batch :: "world \<Rightarrow> int \<Rightarrow> int \<Rightarrow> (outcome \<times> world) option" where
  "dispense_batch w address liters_to_dispense =
     (case get_valid_volume w address 5 of
        (None, w1) \<Rightarrow> Some (Failed ''initial_read_error'' 0, w1)
      | (Some start_vol, w1) \<Rightarrow>
          (let target_vol = start_vol + liters_to_dispense;
               w2 = save_target_reading w1 address target_vol;
               w3 = open_valve w2 address
           in monitoring w3 address start_vol target_vol start_vol 0))"

section \<open>Recovery procedure (main.py)\<close>

text \<open>\<open>mqttPublish\<close> swallows every exception of the client; the report is an effect.\<close>

definition mqttPublish :: "world \<Rightarrow> report \<Rightarrow> world" where
  "mqttPublish w message = w\<lparr>events := events w @ [Publish message]\<rparr>"

text \<open>
  The body of the \<open>try\<close> block of \<open>check_for_interrupted_jobs\<close> for one address. It
  ends normally (\<open>Inr\<close>), raises (\<open>Inl\<close>: comparing a stored value that is not a number
  with the reading), or does not return (\<open>None\<close>, when the resumed batch runs forever).
\<close>

definition recover_address :: "world \<Rightarrow> int \<Rightarrow> ((py_error + unit) \<times> world) option" where
  "recover_address w addr =
     (case load_target_reading w addr of
        None \<Rightarrow>
          (case get_valid_volume w addr 5 of
             (Some current_vol, w1) \<Rightarrow> Some (Inr (), save_target_reading w1 addr current_vol)
           | (None, w1) \<Rightarrow> Some (Inr (), w1))
      | Some saved_target \<Rightarrow>
          (case get_valid_volume w addr 5 of
             (None, w1) \<Rightarrow> Some (Inr (), w1)
           | (Some current_vol, w1) \<Rightarrow>
               (case saved_target of
                  JOther \<Rightarrow> Some (Inl TypeError, w1)
                | JNum target \<Rightarrow>
                    if target > current_vol
                    then (let remaining = target - current_vol;
                              w2 = (if mqtt_present w1
                                    then mqttPublish w1 (Resuming_batch remaining) else w1)
                          in map_option (\<lambda>(result, w3). (Inr (), w3))
                               (dispense_batch w2 addr remaining))
                    else Some (Inr (), w1))))"

text \<open>
  The \<open>for addr in SLAVE_ADDRESSES\<close> loop; the \<open>except\<close> clause prints and goes on
  with the next address.
\<close>

fun check_for_interrupted_jobs :: "world \<Rightarrow> int list \<Rightarrow> world option" where
  "check_for_interrupted_jobs w [] = Some w"
| "check_for_interrupted_jobs w (addr # rest) =
     (case recover_address w addr of
        None \<Rightarrow> None
      | Some (Inl e, w') \<Rightarrow> check_for_interrupted_jobs w' rest
      | Some (Inr u, w') \<Rightarrow> check_for_interrupted_jobs w' rest)"

section \<open>Command intake (meter_mqtts.py)\<close>

text \<open>\<open>deviceID.split('-')[-1]\<close>: the text after the last hyphen.\<close>

definition last_segment :: "string \<Rightarrow> string" where
  "last_segment s = rev (takeWhile (\<lambda>c. c \<noteq> CHR ''-'') (rev s))"

text \<open>
  \<open>get_device_Hex\<close>. The built-in \<open>int(s, 10)\<close> is not part of the program: it is the
  parameter \<open>int10\<close>, which answers \<open>None\<close> where the built-in raises \<open>ValueError\<close>, so
  that what is proved holds for whatever texts the built-in accepts. A \<open>deviceID\<close> that
  is absent from the message, or is not a text, is \<open>None\<close>: \<open>'-' in deviceID\<close> then raises
  \<open>TypeError\<close>.
\<close>

definition get_device_Hex :: "(string \<Rightarrow> int option) \<Rightarrow> string option \<Rightarrow> py_error + int option" where
  "get_device_Hex int10 deviceID =
     (case deviceID of
        None \<Rightarrow> Inl TypeError
      | Some s \<Rightarrow> if CHR ''-'' \<in> set s then Inr (int10 (last_segment s)) else Inr None)"

text \<open>
  The fields \<open>datacb\<close> reads from the decoded message, and \<open>datacb\<close> itself. Its
  argument is \<open>None\<close> when \<open>json.loads\<close> raises; every exception ends in the \<open>except\<close>
  clause, which prints and returns. \<open>not hex_address\<close> holds for \<open>None\<close> and for 0.
\<close>

record payload =
  p_message :: "string option"
  p_litres :: "int option"
  p_deviceID :: "string option"

definition datacb :: "(string \<Rightarrow> int option) \<Rightarrow> world \<Rightarrow> payload option \<Rightarrow> world" where
  "datacb int10 w msg =
     (case msg of
        None \<Rightarrow> w
      | Some p \<Rightarrow>
          (case get_device_Hex int10 (p_deviceID p) of
             Inl e \<Rightarrow> w
           | Inr hex_address \<Rightarrow>
               if hex_address = None \<or> hex_address = Some 0 then w
               else w\<lparr>CMD_QUEUE := CMD_QUEUE w @
                        [\<lparr>cmd_type = p_message p, cmd_addr = the hex_address,
                          cmd_litres = p_litres p, cmd_device_id = the (p_deviceID p)\<rparr>]\<rparr>))"

section \<open>Command processor, idle upload, main loop and supervisor (main.py, meter.py)\<close>

text \<open>
  The body of the \<open>try\<close> block of \<open>process_command_queue\<close> for one popped item.
  \<open>litres > 0\<close> raises \<open>TypeError\<close> when the message carried no \<open>litres\<close>.
\<close>

definition process_item :: "world \<Rightarrow> command \<Rightarrow> ((py_error + unit) \<times> world) option" where
  "process_item w item =
     (let cmd = cmd_type item; addr = cmd_addr item; dev_id = cmd_device_id item
      in if cmd = Some ''success''
         then (case cmd_litres item of
                 None \<Rightarrow> Some (Inl TypeError, w)
               | Some litres \<Rightarrow>
                   if litres > 0
                   then (case dispense_batch (mqttPublish w (Dispense_started dev_id litres))
                                addr litres of
                           None \<Rightarrow> None
                         | Some (Completed dispensed final_reading, w2) \<Rightarrow>
                             Some (Inr (), mqttPublish w2
                                     (Dispense_complete dev_id dispensed final_reading))
                         | Some (Failed reason dispensed, w2) \<Rightarrow>
                             Some (Inr (), mqttPublish w2
                                     (Dispense_failed dev_id reason dispensed)))
                   else Some (Inr (), w))
         else if cmd = Some ''valve_open''
         then Some (Inr (), mqttPublish (open_valve w addr) (Valve_force_open dev_id))
         else if cmd = Some ''valve_close''
         then Some (Inr (), mqttPublish (close_valve w addr) (Valve_force_closed dev_id))
         else Some (Inr (), w))"

text \<open>
  \<open>while len(globals.CMD_QUEUE) > 0\<close>: pop the oldest item, process it to its end, go
  on. The \<open>except\<close> clause prints; either way the loop continues.
\<close>

partial_function (option) process_command_queue :: "world \<Rightarrow> world option" where
  "process_command_queue w =
     (case CMD_QUEUE w of
        [] \<Rightarrow> Some w
      | item # rest \<Rightarrow>
          (case process_item (w\<lparr>CMD_QUEUE := rest\<rparr>) item of
             None \<Rightarrow> None
           | Some (outcome, w') \<Rightarrow> process_command_queue w'))"

text \<open>
  \<open>read_meter_only\<close>; \<open>target and target > cumulative\<close> is false for an absent target
  and for 0, and raises for a stored value that is not a number.
\<close>

fun read_meter_only :: "world \<Rightarrow> int list \<Rightarrow> (py_error + unit) \<times> world" where
  "read_meter_only w [] = (Inr (), w)"
| "read_meter_only w (address # addresses) =
     (case get_valid_volume w address 5 of
        (None, w1) \<Rightarrow> read_meter_only w1 addresses
      | (Some cumulative, w1) \<Rightarrow>
          (case load_target_reading w1 address of
             Some JOther \<Rightarrow> (Inl TypeError, w1)
           | Some (JNum target) \<Rightarrow>
               read_meter_only
                 (mqttPublish w1
                    (Device_report address cumulative
                       (if target \<noteq> 0 \<and> target > cumulative
                        then ''interrupted_batch_detected'' else ''idle'')))
                 addresses
           | None \<Rightarrow>
               read_meter_only (mqttPublish w1 (Device_report address cumulative ''idle''))
                 addresses))"

text \<open>
  What one pass of the \<open>while True\<close> loop of \<open>monitor_loop\<close> finds outside the
  program: whether \<open>safe_gc\<close> sees too little memory, whether the scheduled update
  restarts the device, the results of \<open>gsmCheckStatus()\<close> and \<open>mqtt.status()[0]\<close>. The
  pass ends by going round again or by \<open>machine.reset()\<close>; \<open>t1\<close>, \<open>t2\<close>, \<open>t3\<close> are the
  three readings of \<open>time()\<close>.
\<close>

record environment =
  low_ram :: bool
  ota_reset :: bool
  gsm_status :: int
  mqtt_status :: int

datatype loop_step = Continue world | Reset world

definition monitor_iteration ::
  "world \<Rightarrow> int list \<Rightarrow> environment \<Rightarrow> int \<Rightarrow> int \<Rightarrow> int \<Rightarrow> loop_step option" where
  "monitor_iteration w SLAVE_ADDRESSES env t1 t2 t3 =
     (let w1 = w\<lparr>last_alive_tick := t1\<rparr>
      in if low_ram env \<or> ota_reset env then Some (Reset w1)
         else (case process_command_queue w1 of
                 None \<Rightarrow> None
               | Some w2 \<Rightarrow>
                   if gsm_status env \<noteq> 1 then Some (Reset w2)
                   else (let w3 = (if mqtt_present w2 \<and> mqtt_status env = 2
                                   then snd (read_meter_only w2 SLAVE_ADDRESSES) else w2);
                             w4 = w3\<lparr>last_alive_tick := t2\<rparr>;
                             w5 = w4\<lparr>last_alive_tick := t3\<rparr>
                         in Some (Continue w5))))"

text \<open>
  The test of \<open>supervisor_thread\<close>: the watchdog is fed when it holds, and not fed
  otherwise.
\<close>

definition supervisor_feeds :: "int \<Rightarrow> world \<Rightarrow> bool" where
  "supervisor_feeds now w \<longleftrightarrow> now - last_alive_tick w < 1200"


section \<open>Vocabulary for runs of the driver\<close>

text \<open>
  \<open>polled w address k\<close> is the state after \<open>k\<close> successive calls of
  \<open>read_cumulative_flow\<close> (proved below: \<open>read_cumulative_flow_eq\<close>), and
  \<open>reading w address k\<close> is what the call after those \<open>k\<close> returns.
\<close>

definition read_request :: "int \<Rightarrow> byte list" where
  "read_request address = build_modbus_request address 0x03 0x000E 0x02"

definition polled :: "world \<Rightarrow> int \<Rightarrow> nat \<Rightarrow> world" where
  "polled w address k =
     w\<lparr>events := events w @ replicate k (Tx (read_request address)),
       uart_pos := uart_pos w + k\<rparr>"

definition reading :: "world \<Rightarrow> int \<Rightarrow> nat \<Rightarrow> int option" where
  "reading w address k = fst (read_cumulative_flow (polled w address k) address)"

text \<open>
  The two valve frames; \<open>armed w1 address target_vol\<close>, the state in which the
  monitoring loop starts when the initial read has left \<open>w1\<close>; \<open>since w w'\<close>, the
  effects added between two states. \<open>trail f i\<close> counts the absent readings that end at
  poll \<open>i\<close> of a series \<open>f\<close>, and \<open>lastg f s i\<close> is the last value obtained before poll
  \<open>i\<close>, or \<open>s\<close> when there is none: what \<open>consecutive_errors\<close> and \<open>last_vol\<close> hold
  (\<open>monitoring_prefix\<close>).
\<close>

definition open_frame :: "int \<Rightarrow> byte list" where
  "open_frame address = write_request address 0x0060 0x0001"

definition close_frame :: "int \<Rightarrow> byte list" where
  "close_frame address = write_request address 0x0060 0x0002"

definition armed :: "world \<Rightarrow> int \<Rightarrow> int \<Rightarrow> world" where
  "armed w1 address target_vol = open_valve (save_target_reading w1 address target_vol) address"

definition since :: "world \<Rightarrow> world \<Rightarrow> event list" where
  "since w w' = drop (length (events w)) (events w')"

primrec trail :: "(nat \<Rightarrow> int option) \<Rightarrow> nat \<Rightarrow> nat" where
  "trail f 0 = 0"
| "trail f (Suc i) = (if f i = None then Suc (trail f i) else 0)"

primrec lastg :: "(nat \<Rightarrow> int option) \<Rightarrow> int \<Rightarrow> nat \<Rightarrow> int" where
  "lastg f s 0 = s"
| "lastg f s (Suc i) = (case f i of None \<Rightarrow> lastg f s i | Some c \<Rightarrow> c)"

text \<open>
  \<open>ends_at v a s t l n y\<close>: the loop entered in state \<open>v\<close> with \<open>last_vol = l\<close> returns
  \<open>y\<close> at its poll number \<open>n\<close>, in one of the two ways the source returns.
\<close>

definition ends_at :: "world \<Rightarrow> int \<Rightarrow> int \<Rightarrow> int \<Rightarrow> int \<Rightarrow> nat \<Rightarrow> outcome \<times> world \<Rightarrow> bool" where
  "ends_at v a s t l n y \<longleftrightarrow>
     (\<exists>c. y = (Completed (c - s) c,
               save_target_reading (close_valve (polled v a (Suc n)) a) a c) \<and> t \<le> c)
     \<or> (\<exists>l'. y = (Failed ''meter_timeout'' (l' - s), close_valve (polled v a (Suc n)) a)
           \<and> (l' = l \<or> l' < t))"

section \<open>Test bench\<close>

text \<open>
  Concrete devices for the runs evaluated below: \<open>meter_reply\<close> is a well-formed 9-byte
  reply of a meter, \<open>script\<close> a serial line that delivers the listed responses and is
  silent afterwards, \<open>bench\<close> a freshly booted device attached to a line.
\<close>

definition meter_reply :: "int \<Rightarrow> int \<Rightarrow> byte list" where
  "meter_reply address volume =
     append_crc
       [to_byte address, 0x03, 0x04,
        to_byte (drop_bit 8 volume AND 0xFF), to_byte (volume AND 0xFF), 0x00, 0x00]"

definition script :: "byte list option list \<Rightarrow> nat \<Rightarrow> byte list option" where
  "script xs k = (if k < length xs then xs ! k else None)"

definition bench :: "(nat \<Rightarrow> byte list option) \<Rightarrow> world" where
  "bench rx =
     \<lparr>uart_rx = rx, uart_pos = 0, events = [], targets = Map.empty, mqtt_present = True,
      CMD_QUEUE = [], last_alive_tick = 0\<rparr>"

definition demo_rx :: "nat \<Rightarrow> byte list option" where
  "demo_rx = script [None, Some [0x06, 0x03], Some (meter_reply 6 175)]"

definition batch_rx :: "nat \<Rightarrow> byte list option" where
  "batch_rx = script [Some (meter_reply 6 150), None, Some (meter_reply 6 160), Some (meter_reply 6 175)]"

definition neg_rx :: "nat \<Rightarrow> byte list option" where
  "neg_rx = script [Some (meter_reply 6 150), None, None, Some (meter_reply 6 150)]"

definition timeout_rx :: "nat \<Rightarrow> byte list option" where
  "timeout_rx = script [Some (meter_reply 6 150), None, Some (meter_reply 6 160)]"

text \<open>Test bench for the recovery: a persisted target set by hand.\<close>

definition boot_rx :: "nat \<Rightarrow> byte list option" where
  "boot_rx = script [Some (meter_reply 6 150)]"

definition with_target :: "world \<Rightarrow> int \<Rightarrow> jvalue \<Rightarrow> world" where
  "with_target w a v = w\<lparr>targets := (targets w)(a \<mapsto> v)\<rparr>"

definition two_rx :: "nat \<Rightarrow> byte list option" where
  "two_rx = script [Some (meter_reply 6 150), Some (meter_reply 7 80)]"

text \<open>Test bench: a queued valve command and an uneventful pass of the main loop.\<close>

definition valve_cmd :: command where
  "valve_cmd =
     \<lparr>cmd_type = Some ''valve_close'', cmd_addr = 6, cmd_litres = None,
      cmd_device_id = ''FQX-SM-6''\<rparr>"

definition idle_env :: environment where
  "idle_env = \<lparr>low_ram = False, ota_reset = False, gsm_status = 1, mqtt_status = 0\<rparr>"

text \<open>
  A reading of the built-in \<open>int(s, 10)\<close> on ASCII text, for the concrete messages
  below: white space around the text is skipped, a sign may precede the digits, there is
  at least one decimal digit, and single underscores may stand between digits
  (\<open>int('1_0', 10)\<close> is 10); \<open>None\<close> stands for \<open>ValueError\<close>.
\<close>

definition digit_value :: "char \<Rightarrow> int option" where
  "digit_value =
     map_of [(CHR ''0'', 0), (CHR ''1'', 1), (CHR ''2'', 2), (CHR ''3'', 3), (CHR ''4'', 4),
             (CHR ''5'', 5), (CHR ''6'', 6), (CHR ''7'', 7), (CHR ''8'', 8), (CHR ''9'', 9)]"

fun digits_value :: "int \<Rightarrow> string \<Rightarrow> int option" where
  "digits_value acc [] = Some acc"
| "digits_value acc [c] =
     (case digit_value c of None \<Rightarrow> None | Some d \<Rightarrow> Some (10 * acc + d))"
| "digits_value acc (c # d # cs) =
     (if c = CHR ''_''
      then (case digit_value d of
              None \<Rightarrow> None
            | Some v \<Rightarrow> digits_value (10 * acc + v) cs)
      else (case digit_value c of
              None \<Rightarrow> None
            | Some v \<Rightarrow> digits_value (10 * acc + v) (d # cs)))"

definition is_space :: "char \<Rightarrow> bool" where
  "is_space c \<longleftrightarrow>
     c \<in> set [CHR '' '', CHR 0x09, CHR 0x0A, CHR 0x0B, CHR 0x0C, CHR 0x0D,
              CHR 0x1C, CHR 0x1D, CHR 0x1E, CHR 0x1F]"

definition unsigned_value :: "string \<Rightarrow> int option" where
  "unsigned_value s =
     (case s of
        [] \<Rightarrow> None
      | c # cs \<Rightarrow> (case digit_value c of None \<Rightarrow> None | Some d \<Rightarrow> digits_value d cs))"

definition py_int :: "string \<Rightarrow> int option" where
  "py_int s =
     (case rev (dropWhile is_space (rev (dropWhile is_space s))) of
        [] \<Rightarrow> None
      | c # cs \<Rightarrow>
          if c = CHR ''-'' then map_option uminus (unsigned_value cs)
          else if c = CHR ''+'' then unsigned_value cs
          else unsigned_value (c # cs))"

section \<open>Checksum facts\<close>

lemma crc_shift_range:
  assumes "0 \<le> c" "c < 65536"
  shows "0 \<le> crc_shift c \<and> crc_shift c < 65536"
proof -
  have h: "0 \<le> drop_bit 1 c" "drop_bit 1 c < 2 ^ 16"
    using assms by (simp_all add: drop_bit_eq_div)
  have "drop_bit 1 c XOR 0xA001 < 2 ^ 16"
    by (rule XOR_upper) (use h in simp_all)
  then show ?thesis using h by (simp add: crc_shift_def)
qed

lemma crc_shift_pow_range:
  "0 \<le> c \<Longrightarrow> c < 65536 \<Longrightarrow> 0 \<le> (crc_shift ^^ n) c \<and> (crc_shift ^^ n) c < 65536"
  by (induction n) (simp_all add: crc_shift_range)

lemma crc_update_range:
  assumes "0 \<le> c" "c < 65536"
  shows "0 \<le> crc_update c b \<and> crc_update c b < 65536"
proof -
  have "uint b < 2 ^ 16"
    using uint_bounded [of b] by simp
  then have "c XOR uint b < 2 ^ 16"
    using assms by (intro XOR_upper) simp_all
  moreover have "0 \<le> c XOR uint b"
    using assms by simp
  ultimately show ?thesis
    unfolding crc_update_def by (intro crc_shift_pow_range) simp_all
qed

lemma foldl_crc_range:
  "0 \<le> c \<Longrightarrow> c < 65536 \<Longrightarrow>
     0 \<le> foldl crc_update c data \<and> foldl crc_update c data < 65536"
  by (induction data arbitrary: c) (simp_all add: crc_update_range)

lemma calculate_crc_range: "0 \<le> calculate_crc data \<and> calculate_crc data < 65536"
  unfolding calculate_crc_def by (rule foldl_crc_range) simp_all

lemma split_join_u16:
  assumes "0 \<le> c" "c < 65536"
  shows "uint (to_byte (c AND 0xFF)) OR push_bit 8 (uint (to_byte (drop_bit 8 c AND 0xFF))) = c"
proof -
  have m: "(255::int) = mask 8"
    by (simp add: mask_eq_exp_minus_1)
  have "take_bit 16 c = c"
    using assms by (simp add: take_bit_int_eq_self)
  moreover have
    "uint (to_byte (c AND 0xFF)) OR push_bit 8 (uint (to_byte (drop_bit 8 c AND 0xFF)))
       = take_bit 16 c"
    unfolding to_byte_def m
    by (rule bit_eqI) (auto simp add: bit_simps uint_word_of_int_eq)
  ultimately show ?thesis by simp
qed

lemma verify_append_crc: "data \<noteq> [] \<Longrightarrow> verify_crc (Some (append_crc data))"
  using calculate_crc_range [of data]
  by (simp add: verify_crc_def append_crc_def Let_def nth_append split_join_u16)

lemma length_append_crc: "length (append_crc data) = length data + 2"
  by (simp add: append_crc_def Let_def)

section \<open>Driver facts\<close>

lemma polled_0 [simp]: "polled w a 0 = w"
  by (simp add: polled_def)

lemma polled_polled: "polled (polled w a j) a k = polled w a (j + k)"
  by (simp add: polled_def replicate_add)

lemma snd_read_cumulative_flow: "snd (read_cumulative_flow w a) = polled w a 1"
  by (simp add: read_cumulative_flow_def polled_def read_request_def uart_write_def
      smart_read_modbus_def Let_def split: option.splits)

lemma read_cumulative_flow_eq: "read_cumulative_flow w a = (reading w a 0, polled w a 1)"
  by (simp add: reading_def prod_eq_iff snd_read_cumulative_flow)

lemma reading_polled: "reading (polled w a j) a k = reading w a (j + k)"
  by (simp add: reading_def polled_polled)

lemma reading_cases:
  "reading w a k =
     (case uart_rx w (uart_pos w + k) of
        None \<Rightarrow> None
      | Some r \<Rightarrow>
          if 9 \<le> length r \<and> verify_crc (Some (take 9 r)) \<and> uint (r ! 0) = a
          then Some (push_bit 8 (uint (r ! 3)) OR uint (r ! 4)) else None)"
  by (auto simp add: reading_def read_cumulative_flow_def polled_def uart_write_def
      smart_read_modbus_def Let_def split: option.splits)

lemma get_valid_volume_all_fail:
  "(\<forall>j<n. reading w a j = None) \<Longrightarrow> get_valid_volume w a n = (None, polled w a n)"
proof (induction n arbitrary: w)
  case 0
  then show ?case by simp
next
  case (Suc n)
  have "reading w a 0 = None" using Suc.prems by simp
  moreover have "\<forall>j<n. reading (polled w a 1) a j = None"
    using Suc.prems by (simp add: reading_polled)
  ultimately show ?case
    using Suc.IH [of "polled w a 1"]
    by (simp add: read_cumulative_flow_eq polled_polled)
qed

lemma get_valid_volume_first:
  "k < n \<Longrightarrow> reading w a k = Some v \<Longrightarrow> (\<forall>j<k. reading w a j = None) \<Longrightarrow>
     get_valid_volume w a n = (Some v, polled w a (Suc k))"
proof (induction n arbitrary: w k)
  case 0
  then show ?case by simp
next
  case (Suc n)
  show ?case
  proof (cases k)
    case 0
    then show ?thesis using Suc.prems by (simp add: read_cumulative_flow_eq)
  next
    case (Suc k')
    have "reading w a 0 = None" using Suc.prems Suc by simp
    moreover have "reading (polled w a 1) a k' = Some v"
      using Suc.prems Suc by (simp add: reading_polled)
    moreover have "\<forall>j<k'. reading (polled w a 1) a j = None"
      using Suc.prems Suc by (simp add: reading_polled)
    moreover have "k' < n" using Suc.prems Suc by simp
    ultimately show ?thesis
      using Suc.IH [of k' "polled w a 1"] Suc
      by (simp add: read_cumulative_flow_eq polled_polled)
  qed
qed

lemma get_valid_volume_None_iff:
  "fst (get_valid_volume w a n) = None \<longleftrightarrow> (\<forall>j<n. reading w a j = None)"
proof
  assume "\<forall>j<n. reading w a j = None"
  then show "fst (get_valid_volume w a n) = None"
    by (simp add: get_valid_volume_all_fail)
next
  assume h: "fst (get_valid_volume w a n) = None"
  show "\<forall>j<n. reading w a j = None"
  proof (rule ccontr)
    assume "\<not> (\<forall>j<n. reading w a j = None)"
    then have ex: "\<exists>j. j < n \<and> reading w a j \<noteq> None" by blast
    define k where "k = (LEAST j. j < n \<and> reading w a j \<noteq> None)"
    have k: "k < n \<and> reading w a k \<noteq> None"
      unfolding k_def using ex by (rule LeastI_ex)
    have "\<forall>j<k. reading w a j = None"
    proof (intro allI impI)
      fix j assume "j < k"
      then have "\<not> (j < n \<and> reading w a j \<noteq> None)"
        unfolding k_def by (rule not_less_Least)
      then show "reading w a j = None" using \<open>j < k\<close> k by simp
    qed
    moreover obtain v where "reading w a k = Some v" using k by blast
    ultimately have "get_valid_volume w a n = (Some v, polled w a (Suc k))"
      using k get_valid_volume_first by blast
    then show False using h by simp
  qed
qed

lemma uint_to_byte: "0 \<le> a \<Longrightarrow> a < 256 \<Longrightarrow> uint (to_byte a) = a"
  by (simp add: to_byte_def uint_word_of_int_eq take_bit_int_eq_self)

lemma join_split_u16:
  assumes "0 \<le> c" "c < 65536"
  shows "push_bit 8 (uint (to_byte (drop_bit 8 c AND 0xFF))) OR uint (to_byte (c AND 0xFF)) = c"
  using split_join_u16 [OF assms] by (simp add: or.commute)

lemma reading_meter_reply:
  assumes "uart_rx w (uart_pos w + k) = Some (meter_reply a v)"
    and "0 \<le> a" "a < 256" "0 \<le> v" "v < 65536"
  shows "reading w a k = Some v"
proof -
  have len: "length (meter_reply a v) = 9"
    by (simp add: meter_reply_def length_append_crc)
  have crc: "verify_crc (Some (meter_reply a v))"
    by (simp add: meter_reply_def verify_append_crc)
  have nths: "meter_reply a v ! 0 = to_byte a"
    "meter_reply a v ! 3 = to_byte (drop_bit 8 v AND 0xFF)"
    "meter_reply a v ! 4 = to_byte (v AND 0xFF)"
    by (simp_all add: meter_reply_def append_crc_def Let_def)
  have hd_eq: "uint (meter_reply a v ! 0) = a"
    unfolding nths using assms by (simp only: uint_to_byte)
  have val: "push_bit 8 (uint (meter_reply a v ! 3)) OR uint (meter_reply a v ! 4) = v"
    unfolding nths using assms by (simp only: join_split_u16)
  show ?thesis
    using assms(1) len crc hd_eq val
    by (simp add: reading_cases)
qed

lemma reading_timeout: "uart_rx w (uart_pos w + k) = None \<Longrightarrow> reading w a k = None"
  by (simp add: reading_cases)

lemma reading_short:
  "uart_rx w (uart_pos w + k) = Some r \<Longrightarrow> length r < 9 \<Longrightarrow> reading w a k = None"
  by (simp add: reading_cases)

lemma demo_readings:
  "reading (bench demo_rx) 6 0 = None"
  "reading (bench demo_rx) 6 1 = None"
  "reading (bench demo_rx) 6 2 = Some 175"
  by (simp_all add: reading_timeout reading_short reading_meter_reply bench_def demo_rx_def script_def)

section \<open>Dispense loop facts\<close>

lemma open_valve_eq:
  "open_valve w a = w\<lparr>events := events w @ [Tx (open_frame a)], uart_pos := Suc (uart_pos w)\<rparr>"
  by (simp add: open_valve_def write_single_register_def uart_write_def smart_read_modbus_def
      open_frame_def Let_def split: option.splits)

lemma close_valve_eq:
  "close_valve w a = w\<lparr>events := events w @ [Tx (close_frame a)], uart_pos := Suc (uart_pos w)\<rparr>"
  by (simp add: close_valve_def write_single_register_def uart_write_def smart_read_modbus_def
      close_frame_def Let_def split: option.splits)

lemma frames_differ:
  "open_frame a \<noteq> close_frame a'" "read_request a \<noteq> close_frame a'"
  "read_request a \<noteq> open_frame a'"
  by (simp_all add: open_frame_def close_frame_def read_request_def write_request_def
      build_modbus_request_def append_crc_def Let_def to_byte_def)

lemma monitoring_absent:
  "reading w a 0 = None \<Longrightarrow> Suc e < 5 \<Longrightarrow>
     monitoring w a s t l e = monitoring (polled w a 1) a s t l (Suc e)"
  by (subst monitoring.simps) (simp add: read_cumulative_flow_eq max_errors_def)

lemma monitoring_timeout:
  "reading w a 0 = None \<Longrightarrow> 5 \<le> Suc e \<Longrightarrow>
     monitoring w a s t l e
       = Some (Failed ''meter_timeout'' (l - s), close_valve (polled w a 1) a)"
  by (subst monitoring.simps) (simp add: read_cumulative_flow_eq max_errors_def)

lemma monitoring_below:
  "reading w a 0 = Some c \<Longrightarrow> c < t \<Longrightarrow>
     monitoring w a s t l e = monitoring (polled w a 1) a s t c 0"
  by (subst monitoring.simps) (simp add: read_cumulative_flow_eq)

lemma monitoring_reached:
  "reading w a 0 = Some c \<Longrightarrow> t \<le> c \<Longrightarrow>
     monitoring w a s t l e
       = Some (Completed (c - s) c, save_target_reading (close_valve (polled w a 1) a) a c)"
  by (subst monitoring.simps) (simp add: read_cumulative_flow_eq)

lemma monitoring_prefix:
  assumes "\<forall>i\<le>m. trail (reading w a) i < 5"
    and "\<forall>j<m. \<forall>c. reading w a j = Some c \<longrightarrow> c < t"
  shows "monitoring w a s t s 0
     = monitoring (polled w a m) a s t (lastg (reading w a) s m) (trail (reading w a) m)"
  using assms
proof (induction m)
  case 0
  then show ?case by simp
next
  case (Suc m)
  have IH: "monitoring w a s t s 0
     = monitoring (polled w a m) a s t (lastg (reading w a) s m) (trail (reading w a) m)"
  proof (rule Suc.IH)
    show "\<forall>i\<le>m. trail (reading w a) i < 5"
      using Suc.prems(1) by (meson le_Suc_eq)
    show "\<forall>j<m. \<forall>c. reading w a j = Some c \<longrightarrow> c < t"
      using Suc.prems(2) by (meson less_Suc_eq)
  qed
  have r0: "reading (polled w a m) a 0 = reading w a m"
    by (simp add: reading_polled)
  show ?case
  proof (cases "reading w a m")
    case None
    have "Suc (trail (reading w a) m) < 5"
      using Suc.prems(1) [rule_format, of "Suc m"] None by simp
    then show ?thesis
      using IH None r0 monitoring_absent [of "polled w a m" a "trail (reading w a) m" s t]
      by (simp add: polled_polled)
  next
    case (Some c)
    have "m < Suc m" by simp
    then have "c < t" using Suc.prems(2) Some by blast
    then show ?thesis
      using IH Some r0 monitoring_below [of "polled w a m" a c t s]
      by (simp add: polled_polled)
  qed
qed

lemma trail_run: "trail f i = k \<Longrightarrow> k \<le> i \<and> (\<forall>j. i - k \<le> j \<and> j < i \<longrightarrow> f j = None)"
proof (induction i arbitrary: k)
  case 0
  then show ?case by simp
next
  case (Suc i)
  show ?case
  proof (cases "f i")
    case None
    then have k: "k = Suc (trail f i)" using Suc.prems by simp
    have h: "trail f i \<le> i \<and> (\<forall>j. i - trail f i \<le> j \<and> j < i \<longrightarrow> f j = None)"
      using Suc.IH by simp
    show ?thesis
    proof (intro conjI allI impI)
      show "k \<le> Suc i" using k h by simp
    next
      fix j assume a: "Suc i - k \<le> j \<and> j < Suc i"
      show "f j = None"
      proof (cases "j = i")
        case True then show ?thesis using None by simp
      next
        case False
        then have "i - trail f i \<le> j \<and> j < i" using a k by auto
        then show ?thesis using h by blast
      qed
    qed
  next
    case (Some c)
    then show ?thesis using Suc.prems by auto
  qed
qed

lemma armed_eq:
  "armed w1 a t =
     w1\<lparr>targets := (targets w1)(a \<mapsto> JNum t),
        events := events w1 @ [Persist a t, Tx (open_frame a)],
        uart_pos := Suc (uart_pos w1)\<rparr>"
  by (simp add: armed_def open_valve_eq save_target_reading_def)

lemma line_simps [simp]:
  "uart_rx (armed w1 a t) = uart_rx w1" "uart_pos (armed w1 a t) = Suc (uart_pos w1)"
  "uart_rx (polled w a k) = uart_rx w" "uart_pos (polled w a k) = uart_pos w + k"
  "uart_rx (bench rx) = rx" "uart_pos (bench rx) = 0"
  by (simp_all add: armed_eq polled_def bench_def)

lemma dispense_batch_started:
  "get_valid_volume w a 5 = (Some s, w1) \<Longrightarrow>
     dispense_batch w a L = monitoring (armed w1 a (s + L)) a s (s + L) s 0"
  by (simp add: dispense_batch_def armed_def Let_def)

lemma dispense_batch_no_start:
  "get_valid_volume w a 5 = (None, w1) \<Longrightarrow>
     dispense_batch w a L = Some (Failed ''initial_read_error'' 0, w1)"
  by (simp add: dispense_batch_def)

lemma get_valid_volume_polled: "\<exists>i\<le>n. snd (get_valid_volume w a n) = polled w a i"
proof (induction n arbitrary: w)
  case 0
  then show ?case by simp
next
  case (Suc n)
  show ?case
  proof (cases "reading w a 0")
    case None
    obtain i where "i \<le> n" "snd (get_valid_volume (polled w a 1) a n) = polled (polled w a 1) a i"
      using Suc.IH by blast
    then have "Suc i \<le> Suc n \<and> snd (get_valid_volume w a (Suc n)) = polled w a (Suc i)"
      using None by (simp add: read_cumulative_flow_eq polled_polled)
    then show ?thesis by blast
  next
    case (Some v)
    then have "Suc 0 \<le> Suc n \<and> snd (get_valid_volume w a (Suc n)) = polled w a (Suc 0)"
      by (simp add: read_cumulative_flow_eq)
    then show ?thesis by blast
  qed
qed

lemma trail_after_value: "i = 0 \<or> f (i - 1) \<noteq> None \<Longrightarrow> trail f i = 0"
  by (cases i) auto

lemma lastg_after_value: "f i = Some c \<Longrightarrow> lastg f s (Suc i) = c"
  by simp

lemma monitoring_completes:
  assumes below: "\<forall>j<k. \<exists>c. reading w a j = Some c \<and> c < t"
    and hit: "reading w a k = Some final" "t \<le> final"
  shows "monitoring w a s t s 0
     = Some (Completed (final - s) final,
             save_target_reading (close_valve (polled w a (Suc k)) a) a final)"
proof -
  have tr: "\<forall>i\<le>k. trail (reading w a) i < 5"
  proof (intro allI impI)
    fix i assume "i \<le> k"
    have "i = 0 \<or> reading w a (i - 1) \<noteq> None"
    proof (cases i)
      case 0 then show ?thesis by simp
    next
      case (Suc i')
      then have "i' < k" using \<open>i \<le> k\<close> by simp
      then show ?thesis using below Suc by auto
    qed
    then show "trail (reading w a) i < 5" by (simp add: trail_after_value)
  qed
  have bl: "\<forall>j<k. \<forall>c. reading w a j = Some c \<longrightarrow> c < t"
    using below by auto
  have "monitoring w a s t s 0
     = monitoring (polled w a k) a s t (lastg (reading w a) s k) (trail (reading w a) k)"
    using tr bl by (rule monitoring_prefix)
  moreover have "reading (polled w a k) a 0 = Some final"
    using hit by (simp add: reading_polled)
  ultimately show ?thesis
    using hit(2) monitoring_reached [of "polled w a k" a final t]
    by (simp add: polled_polled)
qed

lemma batch_readings:
  "get_valid_volume (bench batch_rx) 6 5 = (Some 150, polled (bench batch_rx) 6 1)"
  "reading (armed (polled (bench batch_rx) 6 1) 6 170) 6 0 = Some 160"
  "reading (armed (polled (bench batch_rx) 6 1) 6 170) 6 1 = Some 175"
proof -
  have "reading (bench batch_rx) 6 0 = Some 150"
    by (rule reading_meter_reply) (simp_all add: batch_rx_def script_def)
  then show "get_valid_volume (bench batch_rx) 6 5 = (Some 150, polled (bench batch_rx) 6 1)"
    using get_valid_volume_first [of 0 5 "bench batch_rx" 6 150] by simp
  show "reading (armed (polled (bench batch_rx) 6 1) 6 170) 6 0 = Some 160"
    by (rule reading_meter_reply) (simp_all add: batch_rx_def script_def)
  show "reading (armed (polled (bench batch_rx) 6 1) 6 170) 6 1 = Some 175"
    by (rule reading_meter_reply) (simp_all add: batch_rx_def script_def)
qed

lemma trail_le: "trail f i \<le> i"
  using trail_run [of f i "trail f i"] by simp

lemma monitoring_reached_after_absent:
  assumes "k < 5" "\<forall>j<k. reading w a j = None" "reading w a k = Some c" "t \<le> c"
  shows "monitoring w a s t s 0
     = Some (Completed (c - s) c, save_target_reading (close_valve (polled w a (Suc k)) a) a c)"
proof -
  have tr: "\<forall>i\<le>k. trail (reading w a) i < 5"
  proof (intro allI impI)
    fix i assume "i \<le> k"
    then show "trail (reading w a) i < 5"
      using trail_le [of "reading w a" i] assms(1) by simp
  qed
  have bl: "\<forall>j<k. \<forall>c. reading w a j = Some c \<longrightarrow> c < t"
    using assms(2) by simp
  have "monitoring w a s t s 0
     = monitoring (polled w a k) a s t (lastg (reading w a) s k) (trail (reading w a) k)"
    using tr bl by (rule monitoring_prefix)
  moreover have "reading (polled w a k) a 0 = Some c"
    using assms(3) by (simp add: reading_polled)
  ultimately show ?thesis
    using assms(4) monitoring_reached [of "polled w a k" a c t]
    by (simp add: polled_polled)
qed

lemma events_completed:
  "since w1 (save_target_reading (close_valve (polled (armed w1 a t) a n) a) a c)
     = [Persist a t, Tx (open_frame a)] @ replicate n (Tx (read_request a))
       @ [Tx (close_frame a), Persist a c]"
  by (simp add: since_def save_target_reading_def close_valve_eq polled_def armed_eq)

lemma events_timeout:
  "since w1 (close_valve (polled (armed w1 a t) a n) a)
     = [Persist a t, Tx (open_frame a)] @ replicate n (Tx (read_request a))
       @ [Tx (close_frame a)]"
  by (simp add: since_def close_valve_eq polled_def armed_eq)

lemma neg_readings:
  "get_valid_volume (bench neg_rx) 6 5 = (Some 150, polled (bench neg_rx) 6 1)"
  "reading (armed (polled (bench neg_rx) 6 1) 6 145) 6 0 = None"
  "reading (armed (polled (bench neg_rx) 6 1) 6 145) 6 1 = Some 150"
proof -
  have "reading (bench neg_rx) 6 0 = Some 150"
    by (rule reading_meter_reply) (simp_all add: neg_rx_def script_def)
  then show "get_valid_volume (bench neg_rx) 6 5 = (Some 150, polled (bench neg_rx) 6 1)"
    using get_valid_volume_first [of 0 5 "bench neg_rx" 6 150] by simp
  show "reading (armed (polled (bench neg_rx) 6 1) 6 145) 6 0 = None"
    by (rule reading_timeout) (simp add: neg_rx_def script_def)
  show "reading (armed (polled (bench neg_rx) 6 1) 6 145) 6 1 = Some 150"
    by (rule reading_meter_reply) (simp_all add: neg_rx_def script_def)
qed

lemma monitoring_absent_run:
  "0 < n \<Longrightarrow> e + n = 5 \<Longrightarrow> \<forall>j<n. reading v a j = None \<Longrightarrow>
     monitoring v a s t l e
       = Some (Failed ''meter_timeout'' (l - s), close_valve (polled v a n) a)"
proof (induction n arbitrary: v e)
  case 0
  then show ?case by simp
next
  case (Suc n)
  have r0: "reading v a 0 = None" using Suc.prems(3) by simp
  show ?case
  proof (cases "n = 0")
    case True
    then show ?thesis
      using Suc.prems(2) r0 monitoring_timeout [of v a e s t l] by simp
  next
    case False
    have rest: "\<forall>j<n. reading (polled v a 1) a j = None"
      using Suc.prems(3) by (simp add: reading_polled)
    have "monitoring v a s t l e = monitoring (polled v a 1) a s t l (Suc e)"
      using Suc.prems(2) False r0 by (intro monitoring_absent) simp_all
    also have "\<dots> = Some (Failed ''meter_timeout'' (l - s),
                  close_valve (polled (polled v a 1) a n) a)"
      using False Suc.prems(2) rest by (intro Suc.IH) simp_all
    finally show ?thesis by (simp add: polled_polled)
  qed
qed

lemma trail_split: "\<exists>b. i = b + trail f i \<and> (\<forall>j<trail f i. f (b + j) = None)"
proof (induction i)
  case 0
  then show ?case by simp
next
  case (Suc i)
  then obtain b where b: "i = b + trail f i" "\<forall>j<trail f i. f (b + j) = None"
    by blast
  show ?case
  proof (cases "f i")
    case None
    have "\<forall>j<Suc (trail f i). f (b + j) = None"
    proof (intro allI impI)
      fix j assume "j < Suc (trail f i)"
      then consider "j < trail f i" | "j = trail f i" by linarith
      then show "f (b + j) = None"
      proof cases
        case 1 then show ?thesis using b(2) by blast
      next
        case 2 then show ?thesis using b(1) None by simp
      qed
    qed
    moreover have "Suc i = b + Suc (trail f i)" using b(1) by simp
    ultimately show ?thesis using None by auto
  next
    case (Some c)
    then show ?thesis by simp
  qed
qed

lemma trail_bounded:
  assumes "\<forall>i. i + 5 \<le> m \<longrightarrow> (\<exists>j<5. f (i + j) \<noteq> None)" "i \<le> m"
  shows "trail f i < 5"
proof (rule ccontr)
  assume "\<not> trail f i < 5"
  then obtain d where d: "trail f i = 5 + d"
    by (metis not_less le_Suc_ex add.commute)
  obtain b where b: "i = b + trail f i" "\<forall>j<trail f i. f (b + j) = None"
    using trail_split by blast
  have "(b + d) + 5 \<le> m" using assms(2) b(1) d by simp
  then obtain j where j: "j < 5" "f ((b + d) + j) \<noteq> None"
    using assms(1) by blast
  have "d + j < trail f i" using j(1) d by simp
  then have "f (b + (d + j)) = None" using b(2) by blast
  then show False using j(2) by (simp add: add.assoc)
qed

lemma count_list_replicate_other: "x \<noteq> y \<Longrightarrow> count_list (replicate n x) y = 0"
  by (induction n) simp_all

lemma monitoring_times_out:
  assumes below: "\<forall>j<m. \<forall>c. reading v a j = Some c \<longrightarrow> c < t"
    and norun: "\<forall>i. i + 5 \<le> m \<longrightarrow> (\<exists>j<5. reading v a (i + j) \<noteq> None)"
    and lastv: "(m = 0 \<and> lastv = s) \<or> (0 < m \<and> reading v a (m - 1) = Some lastv)"
    and five: "\<forall>j<5. reading v a (m + j) = None"
  shows "monitoring v a s t s 0
     = Some (Failed ''meter_timeout'' (lastv - s), close_valve (polled v a (m + 5)) a)"
proof -
  let ?f = "reading v a"
  have tr: "\<forall>i\<le>m. trail ?f i < 5"
    using trail_bounded [OF norun] by blast
  have pre: "monitoring v a s t s 0
     = monitoring (polled v a m) a s t (lastg ?f s m) (trail ?f m)"
    using tr below by (rule monitoring_prefix)
  have e0: "trail ?f m = 0"
    using lastv by (intro trail_after_value) auto
  have l: "lastg ?f s m = lastv"
  proof (cases m)
    case 0
    then show ?thesis using lastv by simp
  next
    case (Suc m')
    then show ?thesis using lastv by simp
  qed
  have "\<forall>j<5. reading (polled v a m) a j = None"
    using five by (simp add: reading_polled)
  then have "monitoring (polled v a m) a s t lastv 0
     = Some (Failed ''meter_timeout'' (lastv - s), close_valve (polled (polled v a m) a 5) a)"
    by (intro monitoring_absent_run) simp_all
  then show ?thesis using pre e0 l by (simp add: polled_polled)
qed

lemma since_after_reads:
  "since w (close_valve (polled (armed (polled w a i) a t) a n) a)
     = replicate i (Tx (read_request a)) @ [Persist a t, Tx (open_frame a)]
       @ replicate n (Tx (read_request a)) @ [Tx (close_frame a)]"
  by (simp add: since_def close_valve_eq polled_def armed_eq)

lemma one_close_frame:
  "count_list
     (replicate i (Tx (read_request a)) @ [Persist a t, Tx (open_frame a)]
       @ replicate n (Tx (read_request a)) @ [Tx (close_frame a)])
     (Tx (close_frame a)) = 1"
  using frames_differ [of a a]
  by (simp add: count_list_replicate_other)

lemma timeout_readings:
  "get_valid_volume (bench timeout_rx) 6 5 = (Some 150, polled (bench timeout_rx) 6 1)"
  "reading (armed (polled (bench timeout_rx) 6 1) 6 170) 6 0 = Some 160"
  "reading (armed (polled (bench timeout_rx) 6 1) 6 170) 6 (Suc j) = None"
proof -
  have "reading (bench timeout_rx) 6 0 = Some 150"
    by (rule reading_meter_reply) (simp_all add: timeout_rx_def script_def)
  then show "get_valid_volume (bench timeout_rx) 6 5 = (Some 150, polled (bench timeout_rx) 6 1)"
    using get_valid_volume_first [of 0 5 "bench timeout_rx" 6 150] by simp
  show "reading (armed (polled (bench timeout_rx) 6 1) 6 170) 6 0 = Some 160"
    by (rule reading_meter_reply) (simp_all add: timeout_rx_def script_def)
  show "reading (armed (polled (bench timeout_rx) 6 1) 6 170) 6 (Suc j) = None"
    by (rule reading_timeout) (simp add: timeout_rx_def script_def)
qed

section \<open>Every return of the dispense loop\<close>

lemma ends_at_completed:
  "t \<le> c \<Longrightarrow>
     ends_at v a s t l 0
       (Completed (c - s) c, save_target_reading (close_valve (polled v a 1) a) a c)"
  unfolding ends_at_def by (rule disjI1, rule exI [of _ c]) simp

lemma ends_at_failed:
  "ends_at v a s t l 0 (Failed ''meter_timeout'' (l - s), close_valve (polled v a 1) a)"
  unfolding ends_at_def by (rule disjI2, rule exI [of _ l]) simp

lemma ends_at_shift:
  "ends_at (polled v a 1) a s t l n y \<Longrightarrow> ends_at v a s t l (Suc n) y"
  by (simp add: ends_at_def polled_polled)

lemma ends_at_weaken:
  assumes "ends_at v a s t c n y" "c < t"
  shows "ends_at v a s t l n y"
proof -
  let ?C = "\<lambda>c'. y = (Completed (c' - s) c',
               save_target_reading (close_valve (polled v a (Suc n)) a) a c') \<and> t \<le> c'"
  let ?F = "\<lambda>l0 l'. y = (Failed ''meter_timeout'' (l' - s), close_valve (polled v a (Suc n)) a)
               \<and> (l' = l0 \<or> l' < t)"
  have "(\<exists>c'. ?C c') \<or> (\<exists>l'. ?F c l')"
    using assms(1) unfolding ends_at_def .
  then have "(\<exists>c'. ?C c') \<or> (\<exists>l'. ?F l l')"
  proof
    assume "\<exists>c'. ?C c'"
    then show ?thesis by (rule disjI1)
  next
    assume "\<exists>l'. ?F c l'"
    then obtain l' where l': "?F c l'" by (rule exE)
    then have "l' < t \<or> l' = c" by auto
    then have "l' < t" using assms(2) by auto
    then have "?F l l'" using l' by simp
    then have "\<exists>l'. ?F l l'" by (rule exI)
    then show ?thesis by (rule disjI2)
  qed
  then show ?thesis unfolding ends_at_def .
qed

lemma monitoring_returns:
  assumes "monitoring v a s t l e = Some y"
  shows "\<exists>n. ends_at v a s t l n y"
  using assms
proof (induction v a s t l e y rule: monitoring.raw_induct [rotated 1, consumes 1, case_names step])
  case (step loop w address start_vol target_vol last_vol consecutive_errors wa)
  note IH = step(1) and body = step(2)
  show ?case
  proof (cases "reading w address 0")
    case None
    show ?thesis
    proof (cases "max_errors \<le> Suc consecutive_errors")
      case True
      then have "wa = (Failed ''meter_timeout'' (last_vol - start_vol),
                       close_valve (polled w address 1) address)"
        using body None by (simp add: read_cumulative_flow_eq)
      then have "ends_at w address start_vol target_vol last_vol 0 wa"
        by (simp only: ends_at_failed)
      then show ?thesis by (rule exI)
    next
      case False
      then have "loop (polled w address 1) address start_vol target_vol last_vol
                   (Suc consecutive_errors) = Some wa"
        using body None by (simp add: read_cumulative_flow_eq)
      from IH [OF this] obtain n where
        "ends_at (polled w address 1) address start_vol target_vol last_vol n wa"
        by (elim exE)
      then have "ends_at w address start_vol target_vol last_vol (Suc n) wa"
        by (rule ends_at_shift)
      then show ?thesis by (rule exI)
    qed
  next
    case (Some current_vol)
    show ?thesis
    proof (cases "target_vol \<le> current_vol")
      case True
      then have "wa = (Completed (current_vol - start_vol) current_vol,
                       save_target_reading (close_valve (polled w address 1) address)
                         address current_vol)"
        using body Some by (simp add: read_cumulative_flow_eq)
      then have "ends_at w address start_vol target_vol last_vol 0 wa"
        using True by (simp only: ends_at_completed)
      then show ?thesis by (rule exI)
    next
      case False
      then have "loop (polled w address 1) address start_vol target_vol current_vol 0
                   = Some wa"
        using body Some by (simp add: read_cumulative_flow_eq)
      from IH [OF this] obtain n where
        "ends_at (polled w address 1) address start_vol target_vol current_vol n wa"
        by (elim exE)
      then have "ends_at w address start_vol target_vol current_vol (Suc n) wa"
        by (rule ends_at_shift)
      moreover have "current_vol < target_vol" using False by simp
      ultimately have "ends_at w address start_vol target_vol last_vol (Suc n) wa"
        by (rule ends_at_weaken)
      then show ?thesis by (rule exI)
    qed
  qed
qed


lemma since_polled: "since w (polled w a i) = replicate i (Tx (read_request a))"
  by (simp add: since_def polled_def)

lemma initial_read_fails:
  assumes "get_valid_volume w a 5 = (None, w1)"
  shows "dispense_batch w a L = Some (Failed ''initial_read_error'' 0, w1)
     \<and> since w w1 = replicate 5 (Tx (read_request a))"
proof -
  have "fst (get_valid_volume w a 5) = None" using assms by simp
  then have "\<forall>j<5. reading w a j = None"
    by (simp only: get_valid_volume_None_iff)
  then have "get_valid_volume w a 5 = (None, polled w a 5)"
    by (rule get_valid_volume_all_fail)
  then have "w1 = polled w a 5" using assms by simp
  then show ?thesis
    using dispense_batch_no_start [OF assms, of L] by (simp add: since_polled)
qed



lemma silent_start:
  "get_valid_volume (bench (script [])) 6 5 = (None, polled (bench (script [])) 6 5)"
  by (rule get_valid_volume_all_fail) (simp add: reading_timeout script_def)

lemma batch_run:
  "dispense_batch (bench batch_rx) 6 20
     = Some (Completed 25 175,
             save_target_reading
               (close_valve (polled (armed (polled (bench batch_rx) 6 1) 6 170) 6 2) 6) 6 175)"
proof -
  let ?A = "armed (polled (bench batch_rx) 6 1) 6 170"
  have below: "\<forall>j<1. \<exists>c. reading ?A 6 j = Some c \<and> c < 170"
    using batch_readings(2) by simp
  have "170 \<le> (175::int)" by simp
  from monitoring_completes [OF below batch_readings(3) this, of 150]
  show ?thesis
    using dispense_batch_started [OF batch_readings(1), of 20]
    by (simp add: numeral_2_eq_2)
qed


section \<open>Recovery facts\<close>

lemma with_target_simps [simp]:
  "uart_rx (with_target w a v) = uart_rx w" "uart_pos (with_target w a v) = uart_pos w"
  "load_target_reading (with_target w a v) a = Some v"
  "load_target_reading (bench rx) a = None"
  by (simp_all add: with_target_def load_target_reading_def bench_def)

lemma boot_read:
  "uart_rx w = boot_rx \<Longrightarrow> uart_pos w = 0 \<Longrightarrow>
     get_valid_volume w 6 5 = (Some 150, polled w 6 1)"
proof -
  assume a: "uart_rx w = boot_rx" "uart_pos w = 0"
  have "reading w 6 0 = Some 150"
    by (rule reading_meter_reply) (simp_all add: a boot_rx_def script_def)
  then show ?thesis
    using get_valid_volume_first [of 0 5 w 6 150] by simp
qed

lemma two_rx_facts:
  "get_valid_volume (with_target (bench two_rx) 6 JOther) 6 5
     = (Some 150, polled (with_target (bench two_rx) 6 JOther) 6 1)"
  "load_target_reading (polled (with_target (bench two_rx) 6 JOther) 6 1) 7 = None"
  "get_valid_volume (polled (with_target (bench two_rx) 6 JOther) 6 1) 7 5
     = (Some 80, polled (polled (with_target (bench two_rx) 6 JOther) 6 1) 7 1)"
proof -
  let ?X = "with_target (bench two_rx) 6 JOther"
  have "reading ?X 6 0 = Some 150"
    by (rule reading_meter_reply) (simp_all add: two_rx_def script_def)
  then show "get_valid_volume ?X 6 5 = (Some 150, polled ?X 6 1)"
    using get_valid_volume_first [of 0 5 ?X 6 150] by simp
  show "load_target_reading (polled ?X 6 1) 7 = None"
    by (simp add: load_target_reading_def polled_def with_target_def bench_def)
  have "reading (polled ?X 6 1) 7 0 = Some 80"
    by (rule reading_meter_reply) (simp_all add: two_rx_def script_def)
  then show "get_valid_volume (polled ?X 6 1) 7 5 = (Some 80, polled (polled ?X 6 1) 7 1)"
    using get_valid_volume_first [of 0 5 "polled ?X 6 1" 7 80] by simp
qed


section \<open>Command intake facts\<close>

lemma py_int_examples:
  "py_int ''13'' = Some 13" "py_int '' +7 '' = Some 7" "py_int ''1_0'' = Some 10"
  "py_int ''1a'' = None" "py_int [] = None" "py_int ''_1'' = None" "py_int ''1_'' = None"
  "py_int ''1__0'' = None" "py_int ''+'' = None"
  "last_segment ''FQX-SM-6'' = ''6''" "last_segment ''abc'' = ''abc''" "last_segment ''abc-'' = []"
  by (simp_all add: py_int_def unsigned_value_def is_space_def digit_value_def last_segment_def)

section \<open>Liveness timestamp facts\<close>

lemma tick_simps [simp]:
  "last_alive_tick (polled w a k) = last_alive_tick w"
  "last_alive_tick (open_valve w a) = last_alive_tick w"
  "last_alive_tick (close_valve w a) = last_alive_tick w"
  "last_alive_tick (save_target_reading w a v) = last_alive_tick w"
  "last_alive_tick (mqttPublish w m) = last_alive_tick w"
  "last_alive_tick (armed w a t) = last_alive_tick w"
  by (simp_all add: polled_def open_valve_eq close_valve_eq save_target_reading_def
      mqttPublish_def armed_eq)

lemma tick_read_cumulative_flow [simp]:
  "last_alive_tick (snd (read_cumulative_flow w a)) = last_alive_tick w"
  by (simp add: snd_read_cumulative_flow)

lemma tick_get_valid_volume [simp]:
  "last_alive_tick (snd (get_valid_volume w a n)) = last_alive_tick w"
proof -
  obtain i where "snd (get_valid_volume w a n) = polled w a i"
    using get_valid_volume_polled [of n w a] by (elim exE conjE)
  then show ?thesis by simp
qed

lemma tick_ends_at: "ends_at v a s t l n y \<Longrightarrow> last_alive_tick (snd y) = last_alive_tick v"
  unfolding ends_at_def by (elim disjE exE conjE) simp_all

lemma tick_dispense_batch:
  assumes "dispense_batch w a L = Some (r, w')"
  shows "last_alive_tick w' = last_alive_tick w"
proof (cases "get_valid_volume w a 5")
  case (Pair v w1)
  have t1: "last_alive_tick w1 = last_alive_tick w"
    using tick_get_valid_volume [of w a 5] Pair by simp
  show ?thesis
  proof (cases v)
    case None
    then have "w' = w1"
      using dispense_batch_no_start [of w a w1 L] Pair assms by simp
    then show ?thesis using t1 by simp
  next
    case (Some start)
    then have "monitoring (armed w1 a (start + L)) a start (start + L) start 0 = Some (r, w')"
      using dispense_batch_started [of w a start w1 L] Pair assms by simp
    then have "\<exists>n. ends_at (armed w1 a (start + L)) a start (start + L) start n (r, w')"
      by (rule monitoring_returns)
    then obtain n where "ends_at (armed w1 a (start + L)) a start (start + L) start n (r, w')"
      by (elim exE)
    then have "last_alive_tick (snd (r, w')) = last_alive_tick (armed w1 a (start + L))"
      by (rule tick_ends_at)
    then show ?thesis using t1 by simp
  qed
qed

lemma tick_recover_address:
  assumes "recover_address w a = Some (x, w')"
  shows "last_alive_tick w' = last_alive_tick w"
proof (cases "get_valid_volume w a 5")
  case (Pair v w1)
  have t1: "last_alive_tick w1 = last_alive_tick w"
    using tick_get_valid_volume [of w a 5] Pair by simp
  show ?thesis
  proof (cases "\<exists>T c. load_target_reading w a = Some (JNum T) \<and> v = Some c \<and> T > c")
    case True
    then obtain T c where h: "load_target_reading w a = Some (JNum T)" "v = Some c" "T > c"
      by (elim exE conjE)
    let ?w2 = "if mqtt_present w1 then mqttPublish w1 (Resuming_batch (T - c)) else w1"
    have "map_option (\<lambda>(result, w3). (Inr (), w3)) (dispense_batch ?w2 a (T - c)) = Some (x, w')"
      using assms h Pair by (simp add: recover_address_def Let_def)
    then obtain r where "dispense_batch ?w2 a (T - c) = Some (r, w')"
      by (auto split: prod.splits)
    then have "last_alive_tick w' = last_alive_tick ?w2"
      by (rule tick_dispense_batch)
    then show ?thesis using t1 by simp
  next
    case False
    then have "w' = w1 \<or> (\<exists>c. w' = save_target_reading w1 a c)"
      using assms Pair
      by (auto simp add: recover_address_def Let_def
          split: option.splits jvalue.splits if_splits)
    then show ?thesis using t1 by auto
  qed
qed

lemma tick_check_for_interrupted_jobs:
  "check_for_interrupted_jobs w addrs = Some w' \<Longrightarrow> last_alive_tick w' = last_alive_tick w"
proof (induction addrs arbitrary: w)
  case Nil
  then show ?case by simp
next
  case (Cons a addrs)
  from Cons.prems obtain x w1 where r: "recover_address w a = Some (x, w1)"
    and c: "check_for_interrupted_jobs w1 addrs = Some w'"
    by (auto split: option.splits sum.splits)
  have "last_alive_tick w1 = last_alive_tick w" using r by (rule tick_recover_address)
  moreover have "last_alive_tick w' = last_alive_tick w1" using c by (rule Cons.IH)
  ultimately show ?case by simp
qed


lemma tick_process_item:
  assumes "process_item w item = Some (x, w')"
  shows "last_alive_tick w' = last_alive_tick w"
proof (cases "cmd_type item = Some ''success'' \<and> (\<exists>l. cmd_litres item = Some l \<and> l > 0)")
  case True
  then obtain l where l: "cmd_type item = Some ''success''" "cmd_litres item = Some l" "l > 0"
    by (elim exE conjE)
  let ?w1 = "mqttPublish w (Dispense_started (cmd_device_id item) l)"
  obtain r w2 where d: "dispense_batch ?w1 (cmd_addr item) l = Some (r, w2)"
    using assms l by (auto simp add: process_item_def Let_def split: option.splits)
  have t2: "last_alive_tick w2 = last_alive_tick ?w1"
    using d by (rule tick_dispense_batch)
  have "\<exists>m. w' = mqttPublish w2 m"
    using assms l d by (auto simp add: process_item_def Let_def split: outcome.splits)
  then show ?thesis using t2 by auto
next
  case False
  then have "w' = w \<or> (\<exists>m. w' = mqttPublish (open_valve w (cmd_addr item)) m)
      \<or> (\<exists>m. w' = mqttPublish (close_valve w (cmd_addr item)) m)"
    using assms
    by (auto simp add: process_item_def Let_def split: option.splits if_splits)
  then show ?thesis by auto
qed

lemma tick_process_command_queue:
  assumes "process_command_queue w = Some w'"
  shows "last_alive_tick w' = last_alive_tick w"
  using assms
proof (induction w w' rule: process_command_queue.raw_induct [rotated 1, consumes 1, case_names step])
  case (step loop w w')
  show ?case
  proof (cases "CMD_QUEUE w")
    case Nil
    then show ?thesis using step(2) by simp
  next
    case (Cons item rest)
    then obtain x w1 where p: "process_item (w\<lparr>CMD_QUEUE := rest\<rparr>) item = Some (x, w1)"
      and l: "loop w1 = Some w'"
      using step(2) by (auto split: option.splits)
    have "last_alive_tick w1 = last_alive_tick (w\<lparr>CMD_QUEUE := rest\<rparr>)"
      using p by (rule tick_process_item)
    moreover have "last_alive_tick w' = last_alive_tick w1"
      using l by (rule step(1))
    ultimately show ?thesis by simp
  qed
qed

lemma tick_read_meter_only:
  "last_alive_tick (snd (read_meter_only w addresses)) = last_alive_tick w"
proof (induction addresses arbitrary: w)
  case Nil
  then show ?case by simp
next
  case (Cons a addresses)
  obtain v w1 where g: "get_valid_volume w a 5 = (v, w1)"
    by (cases "get_valid_volume w a 5")
  have t1: "last_alive_tick w1 = last_alive_tick w"
    using tick_get_valid_volume [of w a 5] g by simp
  show ?case
    using g t1 Cons.IH
    by (simp split: option.splits jvalue.splits)
qed

lemma tick_monitor_iteration:
  "monitor_iteration w addrs env t1 t2 t3 = Some (Continue w') \<Longrightarrow> last_alive_tick w' = t3"
  by (auto simp add: monitor_iteration_def Let_def split: if_splits option.splits)


lemma clean_boot:
  "check_for_interrupted_jobs (with_target (bench boot_rx) 6 (JNum 100)) [6]
     = Some (polled (with_target (bench boot_rx) 6 (JNum 100)) 6 1)"
proof -
  let ?C = "with_target (bench boot_rx) 6 (JNum 100)"
  have "get_valid_volume ?C 6 5 = (Some 150, polled ?C 6 1)"
    by (rule boot_read) simp_all
  then have "recover_address ?C 6 = Some (Inr (), polled ?C 6 1)"
    by (simp add: recover_address_def)
  then show ?thesis by simp
qed

lemma queue_run:
  "process_command_queue ((bench (script []))\<lparr>CMD_QUEUE := [valve_cmd]\<rparr>)
     = Some (mqttPublish (close_valve ((bench (script []))\<lparr>CMD_QUEUE := []\<rparr>) 6)
               (Valve_force_closed ''FQX-SM-6''))"
proof -
  let ?Q' = "mqttPublish (close_valve ((bench (script []))\<lparr>CMD_QUEUE := []\<rparr>) 6)
               (Valve_force_closed ''FQX-SM-6'')"
  have item: "process_item ((bench (script []))\<lparr>CMD_QUEUE := []\<rparr>) valve_cmd = Some (Inr (), ?Q')"
    by (simp add: process_item_def valve_cmd_def Let_def)
  have empty: "CMD_QUEUE ?Q' = []"
    by (simp add: mqttPublish_def close_valve_eq)
  have rest: "process_command_queue ?Q' = Some ?Q'"
    by (subst process_command_queue.simps) (simp add: empty)
  show ?thesis
    by (subst process_command_queue.simps) (simp add: item rest)
qed

lemma idle_iteration:
  "monitor_iteration (bench (script [])) [6] idle_env 100 280 460
     = Some (Continue ((bench (script []))\<lparr>last_alive_tick := 460\<rparr>))"
proof -
  have "process_command_queue ((bench (script []))\<lparr>last_alive_tick := 100\<rparr>)
      = Some ((bench (script []))\<lparr>last_alive_tick := 100\<rparr>)"
    by (subst process_command_queue.simps) (simp add: bench_def)
  then show ?thesis
    by (simp add: monitor_iteration_def idle_env_def Let_def)
qed

section \<open>Claims\<close>

text \<open>
  C5 (as amended). For every non-empty byte sequence, the frame formed by appending its
  checksum, low byte first, passes \<open>verify_crc\<close>; the checksum fits 16 bits; the
  request frames of
  \<open>build_modbus_request\<close> and \<open>write_single_register\<close> are such frames; and every frame
  shorter than 3 bytes is rejected.
\<close>

theorem crc_roundtrip:
  "(data \<noteq> [] \<longrightarrow> verify_crc (Some (append_crc data)))
   \<and> 0 \<le> calculate_crc data \<and> calculate_crc data < 2 ^ 16
   \<and> verify_crc (Some (build_modbus_request address function_code register_address register_count))
   \<and> verify_crc (Some (write_request address register_address val))
   \<and> (length frame < 3 \<longrightarrow> \<not> verify_crc (Some frame))
   \<and> \<not> verify_crc None"
  using calculate_crc_range [of data]
  by (simp add: verify_append_crc build_modbus_request_def write_request_def)
     (simp add: verify_crc_def)

theorem crc_roundtrip_witness:
  "[0x06 :: byte, 0x03] \<noteq> [] \<and> verify_crc (Some (append_crc [0x06, 0x03]))
   \<and> length [0x06 :: byte, 0x03] < 3 \<and> \<not> verify_crc (Some [0x06, 0x03])"
  using crc_roundtrip [where data = "[0x06, 0x03]" and frame = "[0x06, 0x03]"] by simp

text \<open>
  C5 as stated fails at the empty byte sequence: its checksum is \<open>0xFFFF\<close>, the frame
  built from it has two bytes, and \<open>verify_crc\<close> rejects every frame shorter than 3.
\<close>

theorem crc_roundtrip_empty_counterexample:
  "append_crc [] = [0xFF, 0xFF] \<and> \<not> verify_crc (Some (append_crc []))"
  by (simp add: verify_crc_def append_crc_def calculate_crc_def to_byte_def Let_def)

text \<open>
  C6. \<open>read_cumulative_flow\<close> returns absent when nothing arrives in time, when fewer
  than 9 bytes arrive, when the checksum does not verify, and when the address byte is not
  the requested address; it reads the bytes at offsets 0, 3 and 4 only of a response of 9
  bytes, so no index is out of range and nothing is raised. \<open>get_valid_volume\<close> makes at
  most \<open>retries\<close> attempts, returns absent exactly when every attempt failed, and
  otherwise returns the first value obtained, making no further attempt.
\<close>

theorem read_failures_are_absent:
  "(uart_rx w (uart_pos w) = None \<longrightarrow> read_cumulative_flow w a = (None, polled w a 1))
   \<and> (\<forall>r. uart_rx w (uart_pos w) = Some r
          \<and> (length r < 9 \<or> \<not> verify_crc (Some (take 9 r)) \<or> uint (r ! 0) \<noteq> a)
        \<longrightarrow> read_cumulative_flow w a = (None, polled w a 1))
   \<and> (\<forall>v. fst (read_cumulative_flow w a) = Some v
        \<longrightarrow> (\<exists>r. uart_rx w (uart_pos w) = Some r \<and> 9 \<le> length r
               \<and> v = (push_bit 8 (uint (r ! 3)) OR uint (r ! 4))))
   \<and> (fst (get_valid_volume w a n) = None \<longleftrightarrow> (\<forall>j<n. reading w a j = None))
   \<and> ((\<forall>j<n. reading w a j = None) \<longrightarrow> get_valid_volume w a n = (None, polled w a n))
   \<and> (\<forall>k v. k < n \<and> reading w a k = Some v \<and> (\<forall>j<k. reading w a j = None)
        \<longrightarrow> get_valid_volume w a n = (Some v, polled w a (Suc k)))"
proof -
  have 1: "uart_rx w (uart_pos w) = None \<longrightarrow> read_cumulative_flow w a = (None, polled w a 1)"
    using reading_cases [of w a 0] by (simp add: read_cumulative_flow_eq)
  have 2: "\<forall>r. uart_rx w (uart_pos w) = Some r
          \<and> (length r < 9 \<or> \<not> verify_crc (Some (take 9 r)) \<or> uint (r ! 0) \<noteq> a)
        \<longrightarrow> read_cumulative_flow w a = (None, polled w a 1)"
    using reading_cases [of w a 0] by (auto simp add: read_cumulative_flow_eq)
  have 3: "\<forall>v. fst (read_cumulative_flow w a) = Some v
        \<longrightarrow> (\<exists>r. uart_rx w (uart_pos w) = Some r \<and> 9 \<le> length r
               \<and> v = (push_bit 8 (uint (r ! 3)) OR uint (r ! 4)))"
    using reading_cases [of w a 0]
    by (auto simp add: read_cumulative_flow_eq split: option.splits if_splits)
  show ?thesis
    using 1 2 3 get_valid_volume_None_iff [of w a n] get_valid_volume_all_fail [of n w a]
      get_valid_volume_first [of _ n w a]
    by blast
qed

theorem read_failures_are_absent_witness:
  "uart_rx (bench demo_rx) (uart_pos (bench demo_rx)) = None
   \<and> read_cumulative_flow (bench demo_rx) 6 = (None, polled (bench demo_rx) 6 1)
   \<and> uart_rx (polled (bench demo_rx) 6 1) (uart_pos (polled (bench demo_rx) 6 1)) = Some [0x06, 0x03]
   \<and> length [0x06 :: byte, 0x03] < 9
   \<and> read_cumulative_flow (polled (bench demo_rx) 6 1) 6 = (None, polled (polled (bench demo_rx) 6 1) 6 1)
   \<and> reading (bench demo_rx) 6 0 = None \<and> reading (bench demo_rx) 6 1 = None
   \<and> get_valid_volume (bench demo_rx) 6 2 = (None, polled (bench demo_rx) 6 2)
   \<and> (2::nat) < 5 \<and> reading (bench demo_rx) 6 2 = Some 175
   \<and> get_valid_volume (bench demo_rx) 6 5 = (Some 175, polled (bench demo_rx) 6 3)"
proof -
  have rx0: "uart_rx (bench demo_rx) (uart_pos (bench demo_rx)) = None"
    by (simp add: bench_def demo_rx_def script_def)
  have rx1: "uart_rx (polled (bench demo_rx) 6 1) (uart_pos (polled (bench demo_rx) 6 1))
      = Some [0x06, 0x03]"
    by (simp add: bench_def demo_rx_def script_def polled_def)
  have fails: "\<forall>j<2. reading (bench demo_rx) 6 j = None"
    using demo_readings by (simp add: less_Suc_eq numeral_2_eq_2)
  have a: "read_cumulative_flow (bench demo_rx) 6 = (None, polled (bench demo_rx) 6 1)"
    using read_failures_are_absent [of "bench demo_rx" 6 0] rx0 by blast
  have b: "read_cumulative_flow (polled (bench demo_rx) 6 1) 6
      = (None, polled (polled (bench demo_rx) 6 1) 6 1)"
    using read_failures_are_absent [of "polled (bench demo_rx) 6 1" 6 0] rx1 by simp
  have c: "get_valid_volume (bench demo_rx) 6 2 = (None, polled (bench demo_rx) 6 2)"
    using read_failures_are_absent [of "bench demo_rx" 6 2] fails by blast
  have d: "get_valid_volume (bench demo_rx) 6 5 = (Some 175, polled (bench demo_rx) 6 3)"
    using read_failures_are_absent [of "bench demo_rx" 6 5] fails demo_readings(3)
    by (simp add: numeral_3_eq_3 numeral_2_eq_2)
  show ?thesis using rx0 rx1 a b c d demo_readings by simp
qed

text \<open>
  C1. Let the initial read of \<open>dispense_batch\<close> yield \<open>start\<close>, let every monitoring
  read up to the \<open>m\<close>-th succeed, and let the \<open>m\<close>-th return a value of at least
  \<open>start + L\<close>. Then the call returns, with \<open>Completed\<close>, where \<open>final_reading\<close> is
  the first monitoring reading that is at least \<open>start + L\<close> and
  \<open>dispensed = final_reading - start\<close>.
\<close>

theorem dispense_completes:
  assumes init: "get_valid_volume w a 5 = (Some start, w1)"
    and ok: "\<forall>j\<le>m. reading (armed w1 a (start + L)) a j \<noteq> None"
    and some: "reading (armed w1 a (start + L)) a m = Some c" "start + L \<le> c"
  shows "\<exists>k final. k \<le> m
     \<and> reading (armed w1 a (start + L)) a k = Some final
     \<and> start + L \<le> final
     \<and> (\<forall>j<k. \<forall>c'. reading (armed w1 a (start + L)) a j = Some c' \<longrightarrow> c' < start + L)
     \<and> dispense_batch w a L
         = Some (Completed (final - start) final,
                 save_target_reading
                   (close_valve (polled (armed w1 a (start + L)) a (Suc k)) a) a final)"
proof -
  let ?A = "armed w1 a (start + L)"
  let ?P = "\<lambda>j. \<exists>v. reading ?A a j = Some v \<and> start + L \<le> v"
  define k where "k = (LEAST j. ?P j)"
  have Pm: "?P m" using some by blast
  have Pk: "?P k" unfolding k_def using Pm by (rule LeastI)
  have km: "k \<le> m" unfolding k_def using Pm by (rule Least_le)
  obtain final where fin: "reading ?A a k = Some final" "start + L \<le> final"
    using Pk by blast
  have first: "\<forall>j<k. \<forall>c'. reading ?A a j = Some c' \<longrightarrow> c' < start + L"
  proof (intro allI impI)
    fix j c' assume "j < k" "reading ?A a j = Some c'"
    have "\<not> ?P j" using \<open>j < k\<close> unfolding k_def by (rule not_less_Least)
    then show "c' < start + L" using \<open>reading ?A a j = Some c'\<close> by auto
  qed
  have below: "\<forall>j<k. \<exists>c'. reading ?A a j = Some c' \<and> c' < start + L"
  proof (intro allI impI)
    fix j assume "j < k"
    then have "j \<le> m" using km by simp
    then obtain c' where "reading ?A a j = Some c'" using ok by blast
    then show "\<exists>c'. reading ?A a j = Some c' \<and> c' < start + L"
      using first \<open>j < k\<close> by blast
  qed
  have "dispense_batch w a L
      = Some (Completed (final - start) final,
              save_target_reading (close_valve (polled ?A a (Suc k)) a) a final)"
    using dispense_batch_started [OF init, of L] monitoring_completes [OF below fin]
    by simp
  then show ?thesis using km fin first by blast
qed


theorem dispense_completes_witness:
  "get_valid_volume (bench batch_rx) 6 5 = (Some 150, polled (bench batch_rx) 6 1)
   \<and> reading (armed (polled (bench batch_rx) 6 1) 6 (150 + 20)) 6 0 = Some 160
   \<and> reading (armed (polled (bench batch_rx) 6 1) 6 (150 + 20)) 6 1 = Some 175
   \<and> (150::int) + 20 \<le> 175
   \<and> dispense_batch (bench batch_rx) 6 20
       = Some (Completed 25 175,
               save_target_reading
                 (close_valve (polled (armed (polled (bench batch_rx) 6 1) 6 170) 6 2) 6) 6 175)"
proof -
  let ?A = "armed (polled (bench batch_rx) 6 1) 6 (150 + 20)"
  have r: "reading ?A 6 0 = Some 160" "reading ?A 6 1 = Some 175"
    using batch_readings by simp_all
  have ok: "\<forall>j\<le>1. reading ?A 6 j \<noteq> None"
    using r by (auto simp add: le_Suc_eq)
  obtain k final where kf: "k \<le> 1" "reading ?A 6 k = Some final" "150 + 20 \<le> final"
    "dispense_batch (bench batch_rx) 6 20
       = Some (Completed (final - 150) final,
               save_target_reading (close_valve (polled ?A 6 (Suc k)) 6) 6 final)"
    using dispense_completes [OF batch_readings(1) ok r(2), of ] by auto
  have "k = 1"
  proof (rule ccontr)
    assume "k \<noteq> 1"
    then have "k = 0" using kf(1) by simp
    then show False using kf(2,3) r(1) by simp
  qed
  then have "final = 175" using kf(2) r(2) by simp
  then show ?thesis using kf(4) \<open>k = 1\<close> r batch_readings(1) by (simp add: numeral_2_eq_2)
qed

text \<open>
  C10. For a requested amount \<open>L \<le> 0\<close> whose initial read yields \<open>start\<close>,
  \<open>dispense_batch\<close> persists the target \<open>start + L\<close> and transmits the valve-open frame
  before the first monitoring poll; at the first monitoring read that succeeds (after
  \<open>k < 5\<close> absent ones), with a value \<open>c \<ge> start\<close> as a monotone meter gives, it
  transmits the valve-close frame, persists \<open>c\<close> and returns \<open>Completed\<close> with
  \<open>dispensed = c - start\<close>. While the loop runs the persisted target is \<open>start + L\<close>,
  which for \<open>L < 0\<close> is below the reading.
\<close>

theorem nonpositive_request_actuates_valve:
  assumes "L \<le> 0"
    and "get_valid_volume w a 5 = (Some start, w1)"
    and "k < 5"
    and "\<forall>j<k. reading (armed w1 a (start + L)) a j = None"
    and "reading (armed w1 a (start + L)) a k = Some c"
    and "start \<le> c"
  shows "\<exists>w'. dispense_batch w a L = Some (Completed (c - start) c, w')
     \<and> since w1 w'
         = [Persist a (start + L), Tx (open_frame a)] @ replicate (Suc k) (Tx (read_request a))
           @ [Tx (close_frame a), Persist a c]
     \<and> load_target_reading (armed w1 a (start + L)) a = Some (JNum (start + L))
     \<and> load_target_reading w' a = Some (JNum c)
     \<and> start + L \<le> c
     \<and> (L < 0 \<longrightarrow> start + L < c)"
proof -
  let ?A = "armed w1 a (start + L)"
  let ?w' = "save_target_reading (close_valve (polled ?A a (Suc k)) a) a c"
  have t: "start + L \<le> c" using assms(1,6) by simp
  have "dispense_batch w a L = Some (Completed (c - start) c, ?w')"
    using dispense_batch_started [OF assms(2), of L]
      monitoring_reached_after_absent [OF assms(3,4,5) t]
    by simp
  moreover have "since w1 ?w'
         = [Persist a (start + L), Tx (open_frame a)] @ replicate (Suc k) (Tx (read_request a))
           @ [Tx (close_frame a), Persist a c]"
    by (rule events_completed)
  moreover have "load_target_reading ?A a = Some (JNum (start + L))"
    by (simp add: load_target_reading_def armed_eq)
  moreover have "load_target_reading ?w' a = Some (JNum c)"
    by (simp add: load_target_reading_def save_target_reading_def)
  moreover have "L < 0 \<longrightarrow> start + L < c" using assms(6) by simp
  ultimately show ?thesis using t by blast
qed


theorem nonpositive_request_actuates_valve_witness:
  "(- 5 :: int) \<le> 0
   \<and> get_valid_volume (bench neg_rx) 6 5 = (Some 150, polled (bench neg_rx) 6 1)
   \<and> (1::nat) < 5
   \<and> reading (armed (polled (bench neg_rx) 6 1) 6 (150 + - 5)) 6 0 = None
   \<and> reading (armed (polled (bench neg_rx) 6 1) 6 (150 + - 5)) 6 1 = Some 150
   \<and> (150::int) \<le> 150
   \<and> (\<exists>w'. dispense_batch (bench neg_rx) 6 (- 5) = Some (Completed 0 150, w')
        \<and> since (polled (bench neg_rx) 6 1) w'
            = [Persist 6 145, Tx (open_frame 6), Tx (read_request 6), Tx (read_request 6),
               Tx (close_frame 6), Persist 6 150]
        \<and> load_target_reading (armed (polled (bench neg_rx) 6 1) 6 145) 6 = Some (JNum 145)
        \<and> load_target_reading w' 6 = Some (JNum 150))"
proof -
  let ?A = "armed (polled (bench neg_rx) 6 1) 6 (150 + - 5)"
  have r: "reading ?A 6 0 = None" "reading ?A 6 1 = Some 150"
    using neg_readings by simp_all
  have absent: "\<forall>j<1. reading ?A 6 j = None"
    using r(1) by simp
  have "\<exists>w'. dispense_batch (bench neg_rx) 6 (- 5) = Some (Completed (150 - 150) 150, w')
     \<and> since (polled (bench neg_rx) 6 1) w'
         = [Persist 6 (150 + - 5), Tx (open_frame 6)] @ replicate (Suc 1) (Tx (read_request 6))
           @ [Tx (close_frame 6), Persist 6 150]
     \<and> load_target_reading ?A 6 = Some (JNum (150 + - 5))
     \<and> load_target_reading w' 6 = Some (JNum 150)
     \<and> 150 + - 5 \<le> (150::int)
     \<and> ((- 5 :: int) < 0 \<longrightarrow> 150 + - 5 < (150::int))"
    by (rule nonpositive_request_actuates_valve [OF _ neg_readings(1) _ absent r(2)]) simp_all
  then show ?thesis using r neg_readings(1) by (simp add: numeral_2_eq_2)
qed

text \<open>
  C4. In the monitoring loop an absent reading raises \<open>consecutive_errors\<close> by one and a
  reading below the target sets it to 0 and becomes \<open>last_vol\<close>; the absent reading
  that brings the counter to 5 ends the call. For a whole call: if the meter is absent at
  five consecutive polls \<open>m, \<dots>, m + 4\<close> of the monitoring loop, no five consecutive
  polls were absent before and no earlier poll reached the target, then \<open>dispense_batch\<close>
  returns \<open>Failed\<close> with reason \<open>meter_timeout\<close> and \<open>dispensed\<close> the last value read
  minus \<open>start\<close> (0 when no monitoring read succeeded), the valve-close frame is
  transmitted exactly once in the call, and the persisted target stays \<open>start + L\<close>.
\<close>

theorem meter_timeout_after_five_absent:
  "(\<forall>v l e. reading v a 0 = None \<and> Suc e < 5
       \<longrightarrow> monitoring v a s t l e = monitoring (polled v a 1) a s t l (Suc e))
   \<and> (\<forall>v l e c. reading v a 0 = Some c \<and> c < t
       \<longrightarrow> monitoring v a s t l e = monitoring (polled v a 1) a s t c 0)
   \<and> (\<forall>v l e. reading v a 0 = None \<and> Suc e = 5
       \<longrightarrow> monitoring v a s t l e
           = Some (Failed ''meter_timeout'' (l - s), close_valve (polled v a 1) a))
   \<and> (get_valid_volume w a 5 = (Some start, w1)
       \<and> (\<forall>j<m. \<forall>c. reading (armed w1 a (start + L)) a j = Some c \<longrightarrow> c < start + L)
       \<and> (\<forall>i. i + 5 \<le> m \<longrightarrow> (\<exists>j<5. reading (armed w1 a (start + L)) a (i + j) \<noteq> None))
       \<and> ((m = 0 \<and> lastv = start)
            \<or> (0 < m \<and> reading (armed w1 a (start + L)) a (m - 1) = Some lastv))
       \<and> (\<forall>j<5. reading (armed w1 a (start + L)) a (m + j) = None)
       \<longrightarrow> (\<exists>w'. dispense_batch w a L = Some (Failed ''meter_timeout'' (lastv - start), w')
              \<and> since w1 w'
                  = [Persist a (start + L), Tx (open_frame a)]
                    @ replicate (m + 5) (Tx (read_request a)) @ [Tx (close_frame a)]
              \<and> count_list (since w w') (Tx (close_frame a)) = 1
              \<and> load_target_reading w' a = Some (JNum (start + L))))"
proof (intro conjI allI impI)
  fix v l e
  assume "reading v a 0 = None \<and> Suc e < 5"
  then show "monitoring v a s t l e = monitoring (polled v a 1) a s t l (Suc e)"
    by (simp add: monitoring_absent)
next
  fix v l e c
  assume "reading v a 0 = Some c \<and> c < t"
  then show "monitoring v a s t l e = monitoring (polled v a 1) a s t c 0"
    by (simp add: monitoring_below)
next
  fix v l e
  assume "reading v a 0 = None \<and> Suc e = 5"
  then show "monitoring v a s t l e
           = Some (Failed ''meter_timeout'' (l - s), close_valve (polled v a 1) a)"
    by (simp add: monitoring_timeout)
next
  let ?A = "armed w1 a (start + L)"
  let ?w' = "close_valve (polled ?A a (m + 5)) a"
  assume h: "get_valid_volume w a 5 = (Some start, w1)
       \<and> (\<forall>j<m. \<forall>c. reading ?A a j = Some c \<longrightarrow> c < start + L)
       \<and> (\<forall>i. i + 5 \<le> m \<longrightarrow> (\<exists>j<5. reading ?A a (i + j) \<noteq> None))
       \<and> ((m = 0 \<and> lastv = start) \<or> (0 < m \<and> reading ?A a (m - 1) = Some lastv))
       \<and> (\<forall>j<5. reading ?A a (m + j) = None)"
  note init = h [THEN conjunct1]
  note below = h [THEN conjunct2, THEN conjunct1]
  note norun = h [THEN conjunct2, THEN conjunct2, THEN conjunct1]
  note lastv = h [THEN conjunct2, THEN conjunct2, THEN conjunct2, THEN conjunct1]
  note five = h [THEN conjunct2, THEN conjunct2, THEN conjunct2, THEN conjunct2]
  have res: "dispense_batch w a L = Some (Failed ''meter_timeout'' (lastv - start), ?w')"
    using dispense_batch_started [OF init, of L]
      monitoring_times_out [OF below norun lastv five]
    by simp
  obtain i where "snd (get_valid_volume w a 5) = polled w a i"
    using get_valid_volume_polled [of 5 w a] by (elim exE conjE)
  then have w1: "w1 = polled w a i" using init by simp
  have ev: "since w1 ?w'
      = [Persist a (start + L), Tx (open_frame a)]
        @ replicate (m + 5) (Tx (read_request a)) @ [Tx (close_frame a)]"
    by (rule events_timeout)
  have cnt: "count_list (since w ?w') (Tx (close_frame a)) = 1"
    unfolding w1 since_after_reads by (rule one_close_frame)
  have ld: "load_target_reading ?w' a = Some (JNum (start + L))"
    by (simp add: load_target_reading_def close_valve_eq polled_def armed_eq)
  show "\<exists>w'. dispense_batch w a L = Some (Failed ''meter_timeout'' (lastv - start), w')
              \<and> since w1 w'
                  = [Persist a (start + L), Tx (open_frame a)]
                    @ replicate (m + 5) (Tx (read_request a)) @ [Tx (close_frame a)]
              \<and> count_list (since w w') (Tx (close_frame a)) = 1
              \<and> load_target_reading w' a = Some (JNum (start + L))"
    by (rule exI [of _ ?w'], intro conjI) (fact res, fact ev, fact cnt, fact ld)
qed


theorem meter_timeout_after_five_absent_witness:
  "reading (armed (polled (bench timeout_rx) 6 1) 6 170) 6 0 = Some 160
   \<and> (160::int) < 170
   \<and> monitoring (armed (polled (bench timeout_rx) 6 1) 6 170) 6 150 170 150 0
       = monitoring (polled (armed (polled (bench timeout_rx) 6 1) 6 170) 6 1) 6 150 170 160 0
   \<and> reading (polled (armed (polled (bench timeout_rx) 6 1) 6 170) 6 1) 6 0 = None
   \<and> monitoring (polled (armed (polled (bench timeout_rx) 6 1) 6 170) 6 1) 6 150 170 160 0
       = monitoring (polled (polled (armed (polled (bench timeout_rx) 6 1) 6 170) 6 1) 6 1)
           6 150 170 160 1
   \<and> monitoring (polled (armed (polled (bench timeout_rx) 6 1) 6 170) 6 1) 6 150 170 160 4
       = Some (Failed ''meter_timeout'' 10,
               close_valve (polled (polled (armed (polled (bench timeout_rx) 6 1) 6 170) 6 1) 6 1) 6)
   \<and> get_valid_volume (bench timeout_rx) 6 5 = (Some 150, polled (bench timeout_rx) 6 1)
   \<and> (\<exists>w'. dispense_batch (bench timeout_rx) 6 20 = Some (Failed ''meter_timeout'' 10, w')
        \<and> count_list (since (bench timeout_rx) w') (Tx (close_frame 6)) = 1
        \<and> load_target_reading w' 6 = Some (JNum 170))"
proof -
  let ?A = "armed (polled (bench timeout_rx) 6 1) 6 170"
  note T = meter_timeout_after_five_absent
    [where a = 6 and s = 150 and t = 170 and w = "bench timeout_rx" and start = 150
       and ?w1.0 = "polled (bench timeout_rx) 6 1" and m = 1 and L = 20 and lastv = 160]
  have r0: "reading ?A 6 0 = Some 160" by (rule timeout_readings(2))
  have r1: "reading (polled ?A 6 1) 6 0 = None"
    using timeout_readings(3) [of 0] by (simp add: reading_polled)
  have a: "monitoring ?A 6 150 170 150 0 = monitoring (polled ?A 6 1) 6 150 170 160 0"
    using T [THEN conjunct2, THEN conjunct1, rule_format, of ?A 160 150 0] r0 by simp
  have b: "monitoring (polled ?A 6 1) 6 150 170 160 0
       = monitoring (polled (polled ?A 6 1) 6 1) 6 150 170 160 1"
    using T [THEN conjunct1, rule_format, of "polled ?A 6 1" 0 160] r1 by simp
  have c: "monitoring (polled ?A 6 1) 6 150 170 160 4
       = Some (Failed ''meter_timeout'' 10, close_valve (polled (polled ?A 6 1) 6 1) 6)"
    using T [THEN conjunct2, THEN conjunct2, THEN conjunct1, rule_format,
        of "polled ?A 6 1" 4 160] r1 by simp
  have below: "\<forall>j<1. \<forall>c. reading (armed (polled (bench timeout_rx) 6 1) 6 (150 + 20)) 6 j = Some c
      \<longrightarrow> c < 150 + 20"
    using r0 by simp
  have norun: "\<forall>i. i + 5 \<le> (1::nat) \<longrightarrow>
      (\<exists>j<5. reading (armed (polled (bench timeout_rx) 6 1) 6 (150 + 20)) 6 (i + j) \<noteq> None)"
    by simp
  have lastv: "((1::nat) = 0 \<and> (160::int) = 150)
      \<or> (0 < (1::nat) \<and> reading (armed (polled (bench timeout_rx) 6 1) 6 (150 + 20)) 6 (1 - 1) = Some 160)"
    using r0 by simp
  have five: "\<forall>j<5. reading (armed (polled (bench timeout_rx) 6 1) 6 (150 + 20)) 6 (1 + j) = None"
    using timeout_readings(3) by simp
  have "\<exists>w'. dispense_batch (bench timeout_rx) 6 20 = Some (Failed ''meter_timeout'' (160 - 150), w')
        \<and> since (polled (bench timeout_rx) 6 1) w'
            = [Persist 6 (150 + 20), Tx (open_frame 6)]
              @ replicate (1 + 5) (Tx (read_request 6)) @ [Tx (close_frame 6)]
        \<and> count_list (since (bench timeout_rx) w') (Tx (close_frame 6)) = 1
        \<and> load_target_reading w' 6 = Some (JNum (150 + 20))"
    by (rule T [THEN conjunct2, THEN conjunct2, THEN conjunct2, THEN mp])
       (intro conjI, fact timeout_readings(1), fact below, fact norun, fact lastv, fact five)
  then have d: "\<exists>w'. dispense_batch (bench timeout_rx) 6 20 = Some (Failed ''meter_timeout'' 10, w')
        \<and> count_list (since (bench timeout_rx) w') (Tx (close_frame 6)) = 1
        \<and> load_target_reading w' 6 = Some (JNum 170)"
    by auto
  show ?thesis using r0 r1 a b c d timeout_readings(1) by simp
qed




text \<open>
  C3. For one address the recovery does the following. Target absent: it reads the live
  volume and saves it as the new target if readable, and otherwise saves nothing and sends
  only read requests. Target \<open>T\<close> present and live reading \<open>C\<close> with \<open>T > C\<close>: it
  publishes the resume report when a client exists and calls \<open>dispense_batch\<close> with the
  amount \<open>T - C\<close>, waiting for its return. \<open>T \<le> C\<close>: no action beyond the read
  requests. A stored value that is not a number raises \<open>TypeError\<close>; whatever way the
  handling of an address ends, raised or not, the remaining addresses are processed from
  the state it left, and the procedure returns when the last of them has been handled.
\<close>

theorem recovery_cases:
  "(load_target_reading w a = None \<and> get_valid_volume w a 5 = (Some c, w1)
      \<longrightarrow> recover_address w a = Some (Inr (), save_target_reading w1 a c))
   \<and> (load_target_reading w a = None \<and> get_valid_volume w a 5 = (None, w1)
      \<longrightarrow> recover_address w a = Some (Inr (), w1) \<and> targets w1 = targets w
          \<and> since w w1 = replicate 5 (Tx (read_request a)))
   \<and> (load_target_reading w a = Some (JNum T) \<and> get_valid_volume w a 5 = (Some c, w1) \<and> T > c
      \<longrightarrow> recover_address w a
          = map_option (\<lambda>(result, w3). (Inr (), w3))
              (dispense_batch
                 (if mqtt_present w1 then mqttPublish w1 (Resuming_batch (T - c)) else w1)
                 a (T - c)))
   \<and> (load_target_reading w a = Some (JNum T) \<and> get_valid_volume w a 5 = (Some c, w1) \<and> T \<le> c
      \<longrightarrow> recover_address w a = Some (Inr (), w1) \<and> targets w1 = targets w
          \<and> (\<exists>i. since w w1 = replicate i (Tx (read_request a))))
   \<and> (load_target_reading w a = Some JOther \<and> get_valid_volume w a 5 = (Some c, w1)
      \<longrightarrow> recover_address w a = Some (Inl TypeError, w1))
   \<and> (\<forall>x w'. recover_address w a = Some (x, w')
      \<longrightarrow> check_for_interrupted_jobs w (a # rest) = check_for_interrupted_jobs w' rest)
   \<and> (\<forall>x w'. recover_address w a = Some (x, w')
      \<longrightarrow> check_for_interrupted_jobs w [a] = Some w')
   \<and> check_for_interrupted_jobs w [] = Some w"
proof -
  have shape: "\<exists>i\<le>5. snd (get_valid_volume w a 5) = polled w a i"
    by (rule get_valid_volume_polled)
  have frame: "get_valid_volume w a 5 = (v, w1) \<Longrightarrow>
      targets w1 = targets w \<and> (\<exists>i. since w w1 = replicate i (Tx (read_request a)))" for v
  proof -
    assume g: "get_valid_volume w a 5 = (v, w1)"
    obtain i where "snd (get_valid_volume w a 5) = polled w a i"
      using shape by (elim exE conjE)
    then have w1: "w1 = polled w a i" using g by simp
    have "targets w1 = targets w" unfolding w1 by (simp add: polled_def)
    moreover have "since w w1 = replicate i (Tx (read_request a))"
      unfolding w1 by (rule since_polled)
    ultimately show ?thesis by blast
  qed
  have 1: "load_target_reading w a = None \<and> get_valid_volume w a 5 = (Some c, w1)
      \<longrightarrow> recover_address w a = Some (Inr (), save_target_reading w1 a c)"
    by (simp add: recover_address_def)
  have 2: "load_target_reading w a = None \<and> get_valid_volume w a 5 = (None, w1)
      \<longrightarrow> recover_address w a = Some (Inr (), w1) \<and> targets w1 = targets w
          \<and> since w w1 = replicate 5 (Tx (read_request a))"
    using initial_read_fails [of w a w1] frame [of None]
    by (simp add: recover_address_def)
  have 3: "load_target_reading w a = Some (JNum T) \<and> get_valid_volume w a 5 = (Some c, w1) \<and> T > c
      \<longrightarrow> recover_address w a
          = map_option (\<lambda>(result, w3). (Inr (), w3))
              (dispense_batch
                 (if mqtt_present w1 then mqttPublish w1 (Resuming_batch (T - c)) else w1)
                 a (T - c))"
    by (simp add: recover_address_def Let_def)
  have 4: "load_target_reading w a = Some (JNum T) \<and> get_valid_volume w a 5 = (Some c, w1) \<and> T \<le> c
      \<longrightarrow> recover_address w a = Some (Inr (), w1) \<and> targets w1 = targets w
          \<and> (\<exists>i. since w w1 = replicate i (Tx (read_request a)))"
    using frame [of "Some c"] by (simp add: recover_address_def)
  have 5: "load_target_reading w a = Some JOther \<and> get_valid_volume w a 5 = (Some c, w1)
      \<longrightarrow> recover_address w a = Some (Inl TypeError, w1)"
    by (simp add: recover_address_def)
  have 6: "\<forall>x w'. recover_address w a = Some (x, w')
      \<longrightarrow> check_for_interrupted_jobs w (a # rest) = check_for_interrupted_jobs w' rest"
    by (simp split: sum.splits)
  have 7: "\<forall>x w'. recover_address w a = Some (x, w')
      \<longrightarrow> check_for_interrupted_jobs w [a] = Some w'"
    by (simp split: sum.splits)
  have 8: "check_for_interrupted_jobs w [] = Some w"
    by simp
  show ?thesis
    by (intro conjI) (fact 1, fact 2, fact 3, fact 4, fact 5, fact 6, fact 7, fact 8)
qed


theorem recovery_cases_witness:
  "load_target_reading (bench boot_rx) 6 = None
   \<and> get_valid_volume (bench boot_rx) 6 5 = (Some 150, polled (bench boot_rx) 6 1)
   \<and> recover_address (bench boot_rx) 6
       = Some (Inr (), save_target_reading (polled (bench boot_rx) 6 1) 6 150)
   \<and> check_for_interrupted_jobs (bench boot_rx) [6]
       = Some (save_target_reading (polled (bench boot_rx) 6 1) 6 150)
   \<and> get_valid_volume (bench (script [])) 6 5 = (None, polled (bench (script [])) 6 5)
   \<and> recover_address (bench (script [])) 6 = Some (Inr (), polled (bench (script [])) 6 5)
   \<and> load_target_reading (with_target (bench boot_rx) 6 (JNum 200)) 6 = Some (JNum 200)
   \<and> (200::int) > 150
   \<and> recover_address (with_target (bench boot_rx) 6 (JNum 200)) 6
       = map_option (\<lambda>(result, w3). (Inr (), w3))
           (dispense_batch
              (mqttPublish (polled (with_target (bench boot_rx) 6 (JNum 200)) 6 1)
                 (Resuming_batch 50)) 6 50)
   \<and> load_target_reading (with_target (bench boot_rx) 6 (JNum 100)) 6 = Some (JNum 100)
   \<and> (100::int) \<le> 150
   \<and> recover_address (with_target (bench boot_rx) 6 (JNum 100)) 6
       = Some (Inr (), polled (with_target (bench boot_rx) 6 (JNum 100)) 6 1)
   \<and> load_target_reading (with_target (bench two_rx) 6 JOther) 6 = Some JOther
   \<and> recover_address (with_target (bench two_rx) 6 JOther) 6
       = Some (Inl TypeError, polled (with_target (bench two_rx) 6 JOther) 6 1)
   \<and> recover_address (polled (with_target (bench two_rx) 6 JOther) 6 1) 7
       = Some (Inr (),
               save_target_reading
                 (polled (polled (with_target (bench two_rx) 6 JOther) 6 1) 7 1) 7 80)
   \<and> check_for_interrupted_jobs (with_target (bench two_rx) 6 JOther) [6, 7]
       = Some (save_target_reading
                 (polled (polled (with_target (bench two_rx) 6 JOther) 6 1) 7 1) 7 80)
   \<and> load_target_reading
         (save_target_reading
            (polled (polled (with_target (bench two_rx) 6 JOther) 6 1) 7 1) 7 80) 7
       = Some (JNum 80)
   \<and> check_for_interrupted_jobs (bench boot_rx) [] = Some (bench boot_rx)"
proof -
  let ?B = "bench boot_rx"
  let ?S = "bench (script [])"
  let ?R = "with_target (bench boot_rx) 6 (JNum 200)"
  let ?C = "with_target (bench boot_rx) 6 (JNum 100)"
  let ?Y = "with_target (bench two_rx) 6 JOther"
  let ?Y1 = "polled ?Y 6 1"
  let ?Y2 = "save_target_reading (polled ?Y1 7 1) 7 80"
  have gB: "get_valid_volume ?B 6 5 = (Some 150, polled ?B 6 1)"
    by (rule boot_read) simp_all
  have gR: "get_valid_volume ?R 6 5 = (Some 150, polled ?R 6 1)"
    by (rule boot_read) simp_all
  have gC: "get_valid_volume ?C 6 5 = (Some 150, polled ?C 6 1)"
    by (rule boot_read) simp_all
  note TB = recovery_cases [where w = ?B and a = 6 and c = 150 and ?w1.0 = "polled ?B 6 1"]
  have a: "recover_address ?B 6 = Some (Inr (), save_target_reading (polled ?B 6 1) 6 150)"
    using TB [THEN conjunct1] gB by simp
  have a': "check_for_interrupted_jobs ?B [6] = Some (save_target_reading (polled ?B 6 1) 6 150)"
    using TB [THEN conjunct2, THEN conjunct2, THEN conjunct2, THEN conjunct2, THEN conjunct2,
        THEN conjunct2, THEN conjunct1, rule_format,
        of "Inr ()" "save_target_reading (polled ?B 6 1) 6 150"] a
    by simp
  have z: "check_for_interrupted_jobs ?B [] = Some ?B"
    by (rule TB [THEN conjunct2, THEN conjunct2, THEN conjunct2, THEN conjunct2, THEN conjunct2,
        THEN conjunct2, THEN conjunct2])
  have b: "recover_address ?S 6 = Some (Inr (), polled ?S 6 5)"
    using recovery_cases [where w = ?S and a = 6 and ?w1.0 = "polled ?S 6 5",
        THEN conjunct2, THEN conjunct1] silent_start by simp
  have mp: "mqtt_present (polled ?R 6 1)"
    by (simp add: polled_def with_target_def bench_def)
  have c: "recover_address ?R 6
       = map_option (\<lambda>(result, w3). (Inr (), w3))
           (dispense_batch (mqttPublish (polled ?R 6 1) (Resuming_batch 50)) 6 50)"
    using recovery_cases [where w = ?R and a = 6 and c = 150 and T = 200
        and ?w1.0 = "polled ?R 6 1",
        THEN conjunct2, THEN conjunct2, THEN conjunct1] gR mp by simp
  have d: "recover_address ?C 6 = Some (Inr (), polled ?C 6 1)"
    using recovery_cases [where w = ?C and a = 6 and c = 150 and T = 100
        and ?w1.0 = "polled ?C 6 1",
        THEN conjunct2, THEN conjunct2, THEN conjunct2, THEN conjunct1] gC by simp
  note TY = recovery_cases [where w = ?Y and a = 6 and c = 150 and ?w1.0 = ?Y1
        and rest = "[7]",
        THEN conjunct2, THEN conjunct2, THEN conjunct2, THEN conjunct2]
  have e: "recover_address ?Y 6 = Some (Inl TypeError, ?Y1)"
    using TY [THEN conjunct1] two_rx_facts(1) by simp
  have f1: "check_for_interrupted_jobs ?Y [6, 7] = check_for_interrupted_jobs ?Y1 [7]"
    using TY [THEN conjunct2, THEN conjunct1, rule_format, of "Inl TypeError" ?Y1] e by simp
  note TZ = recovery_cases [where w = ?Y1 and a = 7 and c = 80 and ?w1.0 = "polled ?Y1 7 1"]
  have g: "recover_address ?Y1 7 = Some (Inr (), ?Y2)"
    using TZ [THEN conjunct1] two_rx_facts(2,3) by simp
  have f2: "check_for_interrupted_jobs ?Y1 [7] = Some ?Y2"
    using TZ [THEN conjunct2, THEN conjunct2, THEN conjunct2, THEN conjunct2, THEN conjunct2,
        THEN conjunct2, THEN conjunct1, rule_format, of "Inr ()" ?Y2] g
    by simp
  have f: "check_for_interrupted_jobs ?Y [6, 7] = Some ?Y2"
    using f1 f2 by simp
  have h: "load_target_reading ?Y2 7 = Some (JNum 80)"
    by (simp add: load_target_reading_def save_target_reading_def)
  show ?thesis
    using gB a a' silent_start b c d e g f h z by simp
qed

text \<open>
  C8 (as amended). A message whose \<open>deviceID\<close> contains a hyphen and whose text after
  the last hyphen is a decimal integer other than 0 is enqueued with that integer as its
  address. A message without \<open>deviceID\<close>, or whose \<open>deviceID\<close> has no hyphen, or whose
  text after the last hyphen is not a decimal integer, is dropped, as is a message that
  cannot be decoded. A text is a decimal integer when the built-in \<open>int(s, 10)\<close> returns
  a value for it; the statement holds for every such built-in \<open>int10\<close>, digit
  separators and surrounding white space included.
\<close>

theorem command_intake:
  "(\<forall>s n. p_deviceID p = Some s \<and> CHR ''-'' \<in> set s \<and> int10 (last_segment s) = Some n \<and> n \<noteq> 0
      \<longrightarrow> datacb int10 w (Some p)
          = w\<lparr>CMD_QUEUE := CMD_QUEUE w @
                 [\<lparr>cmd_type = p_message p, cmd_addr = n, cmd_litres = p_litres p,
                   cmd_device_id = s\<rparr>]\<rparr>)
   \<and> (p_deviceID p = None
        \<or> (\<exists>s. p_deviceID p = Some s
              \<and> (CHR ''-'' \<notin> set s \<or> int10 (last_segment s) = None))
      \<longrightarrow> datacb int10 w (Some p) = w)
   \<and> datacb int10 w None = w"
  by (auto simp add: datacb_def get_device_Hex_def)

theorem command_intake_witness:
  "py_int (last_segment ''FQX-SM-6'') = Some 6
   \<and> datacb py_int (bench (script []))
         (Some \<lparr>p_message = Some ''success'', p_litres = Some 20, p_deviceID = Some ''FQX-SM-6''\<rparr>)
       = (bench (script []))\<lparr>CMD_QUEUE :=
            [\<lparr>cmd_type = Some ''success'', cmd_addr = 6, cmd_litres = Some 20,
              cmd_device_id = ''FQX-SM-6''\<rparr>]\<rparr>
   \<and> datacb py_int (bench (script []))
         (Some \<lparr>p_message = Some ''success'', p_litres = Some 20, p_deviceID = None\<rparr>)
       = bench (script [])
   \<and> CHR ''-'' \<notin> set ''FQX6''
   \<and> datacb py_int (bench (script []))
         (Some \<lparr>p_message = Some ''success'', p_litres = Some 20, p_deviceID = Some ''FQX6''\<rparr>)
       = bench (script [])
   \<and> py_int (last_segment ''FQX-SM-six'') = None
   \<and> datacb py_int (bench (script []))
         (Some \<lparr>p_message = Some ''success'', p_litres = Some 20, p_deviceID = Some ''FQX-SM-six''\<rparr>)
       = bench (script [])"
proof -
  let ?w = "bench (script [])"
  let ?p = "\<lambda>d. \<lparr>p_message = Some ''success'', p_litres = Some 20, p_deviceID = d\<rparr>"
  have six: "py_int (last_segment ''FQX-SM-6'') = Some 6"
    by (simp add: py_int_def unsigned_value_def is_space_def digit_value_def last_segment_def)
  have nonum: "py_int (last_segment ''FQX-SM-six'') = None"
    by (simp add: py_int_def unsigned_value_def is_space_def digit_value_def last_segment_def)
  have q: "CMD_QUEUE ?w = []" by (simp add: bench_def)
  have a: "datacb py_int ?w (Some (?p (Some ''FQX-SM-6'')))
       = ?w\<lparr>CMD_QUEUE := [\<lparr>cmd_type = Some ''success'', cmd_addr = 6, cmd_litres = Some 20,
              cmd_device_id = ''FQX-SM-6''\<rparr>]\<rparr>"
    using command_intake [where ?int10.0 = py_int and p = "?p (Some ''FQX-SM-6'')" and w = ?w, THEN conjunct1,
        rule_format, of "''FQX-SM-6''" 6] six q
    by simp
  have b: "datacb py_int ?w (Some (?p None)) = ?w"
    using command_intake [where ?int10.0 = py_int and p = "?p None" and w = ?w, THEN conjunct2, THEN conjunct1]
    by simp
  have c: "datacb py_int ?w (Some (?p (Some ''FQX6''))) = ?w"
    using command_intake [where ?int10.0 = py_int and p = "?p (Some ''FQX6'')" and w = ?w, THEN conjunct2, THEN conjunct1]
    by simp
  have d: "datacb py_int ?w (Some (?p (Some ''FQX-SM-six''))) = ?w"
    using command_intake [where ?int10.0 = py_int and p = "?p (Some ''FQX-SM-six'')" and w = ?w, THEN conjunct2,
        THEN conjunct1] nonum
    by simp
  show ?thesis using six nonum a b c d by simp
qed

text \<open>
  C8 as stated fails at the device identifier \<open>FQX-SM-0\<close>: the text after its last hyphen
  is the decimal integer 0, and the message is dropped, because \<open>not hex_address\<close> holds
  for 0. It also fails at the identifier \<open>6\<close>, whose only segment is the integer 6:
  \<open>get_device_Hex\<close> answers \<open>None\<close> for every identifier without a hyphen.
\<close>

theorem zero_address_dropped_counterexample:
  "py_int (last_segment ''FQX-SM-0'') = Some 0
   \<and> CMD_QUEUE (datacb py_int (bench (script []))
        (Some \<lparr>p_message = Some ''valve_open'', p_litres = None, p_deviceID = Some ''FQX-SM-0''\<rparr>))
      = []
   \<and> py_int (last_segment ''6'') = Some 6
   \<and> CMD_QUEUE (datacb py_int (bench (script []))
        (Some \<lparr>p_message = Some ''valve_open'', p_litres = None, p_deviceID = Some ''6''\<rparr>))
      = []"
  by (simp add: datacb_def get_device_Hex_def py_int_def unsigned_value_def is_space_def
      digit_value_def last_segment_def bench_def)

text \<open>
  C9. No operation of the meter driver or the target store changes \<open>last_alive_tick\<close>,
  and neither do \<open>dispense_batch\<close>, the recovery procedure and \<open>process_command_queue\<close>
  from call to return; a pass of the main loop that goes round leaves it at the last of
  its three readings of the clock. Hence, once 1200 seconds have passed since the
  timestamp was written, the supervisor's test fails at every poll of a running monitoring
  loop and after the return of a dispense or of the recovery: it does not feed the
  watchdog, whatever the readings of the meter.
\<close>

theorem liveness_tick_frame:
  "last_alive_tick (snd (read_cumulative_flow w a)) = last_alive_tick w
   \<and> last_alive_tick (open_valve w a) = last_alive_tick w
   \<and> last_alive_tick (close_valve w a) = last_alive_tick w
   \<and> last_alive_tick (save_target_reading w a v) = last_alive_tick w
   \<and> (\<forall>r w'. dispense_batch w a L = Some (r, w') \<longrightarrow> last_alive_tick w' = last_alive_tick w)
   \<and> (\<forall>w'. check_for_interrupted_jobs w addrs = Some w'
         \<longrightarrow> last_alive_tick w' = last_alive_tick w)
   \<and> (\<forall>w'. process_command_queue w = Some w' \<longrightarrow> last_alive_tick w' = last_alive_tick w)
   \<and> (\<forall>w'. monitor_iteration w addrs env t1 t2 t3 = Some (Continue w')
         \<longrightarrow> last_alive_tick w' = t3)
   \<and> (\<forall>start w1 k now. get_valid_volume w a 5 = (Some start, w1)
           \<and> 1200 \<le> now - last_alive_tick w
         \<longrightarrow> \<not> supervisor_feeds now (polled (armed w1 a (start + L)) a k))
   \<and> (\<forall>r w' now. dispense_batch w a L = Some (r, w') \<and> 1200 \<le> now - last_alive_tick w
         \<longrightarrow> \<not> supervisor_feeds now w')
   \<and> (\<forall>w' now. check_for_interrupted_jobs w addrs = Some w'
           \<and> 1200 \<le> now - last_alive_tick w
         \<longrightarrow> \<not> supervisor_feeds now w')"
proof -
  have d: "\<forall>r w'. dispense_batch w a L = Some (r, w') \<longrightarrow> last_alive_tick w' = last_alive_tick w"
    using tick_dispense_batch by blast
  have c: "\<forall>w'. check_for_interrupted_jobs w addrs = Some w'
         \<longrightarrow> last_alive_tick w' = last_alive_tick w"
    using tick_check_for_interrupted_jobs by blast
  have q: "\<forall>w'. process_command_queue w = Some w' \<longrightarrow> last_alive_tick w' = last_alive_tick w"
    using tick_process_command_queue by blast
  have m: "\<forall>w'. monitor_iteration w addrs env t1 t2 t3 = Some (Continue w')
         \<longrightarrow> last_alive_tick w' = t3"
    using tick_monitor_iteration by blast
  have during: "\<forall>start w1 k now. get_valid_volume w a 5 = (Some start, w1)
           \<and> 1200 \<le> now - last_alive_tick w
         \<longrightarrow> \<not> supervisor_feeds now (polled (armed w1 a (start + L)) a k)"
  proof (intro allI impI)
    fix start w1 k now
    assume h: "get_valid_volume w a 5 = (Some start, w1) \<and> 1200 \<le> now - last_alive_tick w"
    have "last_alive_tick w1 = last_alive_tick w"
      using tick_get_valid_volume [of w a 5] h by simp
    then show "\<not> supervisor_feeds now (polled (armed w1 a (start + L)) a k)"
      using h by (simp add: supervisor_feeds_def)
  qed
  have sd: "\<forall>r w' now. dispense_batch w a L = Some (r, w') \<and> 1200 \<le> now - last_alive_tick w
         \<longrightarrow> \<not> supervisor_feeds now w'"
    using d by (simp add: supervisor_feeds_def)
  have sc: "\<forall>w' now. check_for_interrupted_jobs w addrs = Some w'
           \<and> 1200 \<le> now - last_alive_tick w
         \<longrightarrow> \<not> supervisor_feeds now w'"
    using c by (simp add: supervisor_feeds_def)
  show ?thesis
    by (intro conjI) (simp, simp, simp, simp, fact d, fact c, fact q, fact m, fact during,
        fact sd, fact sc)
qed


theorem liveness_tick_frame_witness:
  "dispense_batch (bench batch_rx) 6 20
       = Some (Completed 25 175,
               save_target_reading
                 (close_valve (polled (armed (polled (bench batch_rx) 6 1) 6 170) 6 2) 6) 6 175)
   \<and> last_alive_tick
         (save_target_reading
            (close_valve (polled (armed (polled (bench batch_rx) 6 1) 6 170) 6 2) 6) 6 175)
       = last_alive_tick (bench batch_rx)
   \<and> (1200::int) \<le> 1300 - last_alive_tick (bench batch_rx)
   \<and> \<not> supervisor_feeds 1300
         (save_target_reading
            (close_valve (polled (armed (polled (bench batch_rx) 6 1) 6 170) 6 2) 6) 6 175)
   \<and> get_valid_volume (bench batch_rx) 6 5 = (Some 150, polled (bench batch_rx) 6 1)
   \<and> \<not> supervisor_feeds 1300 (polled (armed (polled (bench batch_rx) 6 1) 6 (150 + 20)) 6 1)
   \<and> check_for_interrupted_jobs (with_target (bench boot_rx) 6 (JNum 100)) [6]
       = Some (polled (with_target (bench boot_rx) 6 (JNum 100)) 6 1)
   \<and> last_alive_tick (polled (with_target (bench boot_rx) 6 (JNum 100)) 6 1)
       = last_alive_tick (with_target (bench boot_rx) 6 (JNum 100))
   \<and> (1200::int) \<le> 1300 - last_alive_tick (with_target (bench boot_rx) 6 (JNum 100))
   \<and> \<not> supervisor_feeds 1300 (polled (with_target (bench boot_rx) 6 (JNum 100)) 6 1)
   \<and> process_command_queue ((bench (script []))\<lparr>CMD_QUEUE := [valve_cmd]\<rparr>)
       = Some (mqttPublish (close_valve ((bench (script []))\<lparr>CMD_QUEUE := []\<rparr>) 6)
                 (Valve_force_closed ''FQX-SM-6''))
   \<and> last_alive_tick (mqttPublish (close_valve ((bench (script []))\<lparr>CMD_QUEUE := []\<rparr>) 6)
                 (Valve_force_closed ''FQX-SM-6''))
       = last_alive_tick ((bench (script []))\<lparr>CMD_QUEUE := [valve_cmd]\<rparr>)
   \<and> monitor_iteration (bench (script [])) [6] idle_env 100 280 460
       = Some (Continue ((bench (script []))\<lparr>last_alive_tick := 460\<rparr>))
   \<and> last_alive_tick ((bench (script []))\<lparr>last_alive_tick := 460\<rparr>) = 460"
proof -
  let ?B = "bench batch_rx"
  let ?W1 = "save_target_reading
                 (close_valve (polled (armed (polled (bench batch_rx) 6 1) 6 170) 6 2) 6) 6 175"
  let ?C = "with_target (bench boot_rx) 6 (JNum 100)"
  let ?Q = "(bench (script []))\<lparr>CMD_QUEUE := [valve_cmd]\<rparr>"
  let ?Q' = "mqttPublish (close_valve ((bench (script []))\<lparr>CMD_QUEUE := []\<rparr>) 6)
                 (Valve_force_closed ''FQX-SM-6'')"
  let ?I = "bench (script [])"
  note TB = liveness_tick_frame [where w = ?B and a = 6 and L = 20]
  note TC = liveness_tick_frame [where w = ?C and addrs = "[6]"]
  note TQ = liveness_tick_frame [where w = ?Q]
  note TI = liveness_tick_frame [where w = ?I and addrs = "[6]" and env = idle_env
      and ?t1.0 = 100 and ?t2.0 = 280 and ?t3.0 = 460]
  have tB: "last_alive_tick ?B = 0" by (simp add: bench_def)
  have tC: "last_alive_tick ?C = 0" by (simp add: bench_def with_target_def)
  have late: "(1200::int) \<le> 1300 - last_alive_tick ?B" "(1200::int) \<le> 1300 - last_alive_tick ?C"
    using tB tC by simp_all
  have d1: "last_alive_tick ?W1 = last_alive_tick ?B"
    using TB [THEN conjunct2, THEN conjunct2, THEN conjunct2, THEN conjunct2, THEN conjunct1,
        rule_format, of "Completed 25 175" ?W1] batch_run
    by simp
  note R8 = TB [THEN conjunct2, THEN conjunct2, THEN conjunct2, THEN conjunct2, THEN conjunct2,
      THEN conjunct2, THEN conjunct2, THEN conjunct2]
  have d2: "\<not> supervisor_feeds 1300 (polled (armed (polled ?B 6 1) 6 (150 + 20)) 6 1)"
    using R8 [THEN conjunct1, rule_format, of 150 "polled ?B 6 1" 1300 1] batch_readings(1) late(1)
    by simp
  have d3: "\<not> supervisor_feeds 1300 ?W1"
    using R8 [THEN conjunct2, THEN conjunct1, rule_format, of "Completed 25 175" ?W1 1300]
      batch_run late(1)
    by simp
  note C5 = TC [THEN conjunct2, THEN conjunct2, THEN conjunct2, THEN conjunct2, THEN conjunct2]
  have c1: "last_alive_tick (polled ?C 6 1) = last_alive_tick ?C"
    using C5 [THEN conjunct1, rule_format, of "polled ?C 6 1"] clean_boot by simp
  have c2: "\<not> supervisor_feeds 1300 (polled ?C 6 1)"
    using C5 [THEN conjunct2, THEN conjunct2, THEN conjunct2, THEN conjunct2, THEN conjunct2,
        rule_format, of "polled ?C 6 1" 1300] clean_boot late(2)
    by simp
  have q1: "last_alive_tick ?Q' = last_alive_tick ?Q"
    using TQ [THEN conjunct2, THEN conjunct2, THEN conjunct2, THEN conjunct2, THEN conjunct2,
        THEN conjunct2, THEN conjunct1, rule_format, of ?Q'] queue_run
    by simp
  have i1: "last_alive_tick (?I\<lparr>last_alive_tick := 460\<rparr>) = 460"
    using TI [THEN conjunct2, THEN conjunct2, THEN conjunct2, THEN conjunct2, THEN conjunct2,
        THEN conjunct2, THEN conjunct2, THEN conjunct1, rule_format,
        of "?I\<lparr>last_alive_tick := 460\<rparr>"] idle_iteration
    by simp
  show ?thesis
    by (intro conjI) (fact batch_run, fact d1, fact late(1), fact d3, fact batch_readings(1),
        fact d2, fact clean_boot, fact c1, fact late(2), fact c2, fact queue_run, fact q1,
        fact idle_iteration, fact i1)
qed

end
